theory Spec2Isabelle
  imports Main "HOL-Library.Char_ord" "HOL-Library.List_Lexorder"
begin

section \<open>Python syntax trees\<close>

text \<open>
  The extractor works on the tree that \<^verbatim>\<open>ast.parse\<close> returns. Every node class the
  program tests for or visits has a constructor of \<open>ast\<close>; every other statement or
  expression class is \<open>Other\<close>, with its class name and its child nodes in field order.
  The last \<open>nat\<close> of a constructor is \<^verbatim>\<open>lineno\<close>; \<open>FunctionDef\<close> and \<open>ClassDef\<close>
  also carry \<^verbatim>\<open>end_lineno\<close> (\<open>None\<close> when the attribute is absent). The first field of
  \<open>FunctionDef\<close> tells \<^verbatim>\<open>AsyncFunctionDef\<close> from \<^verbatim>\<open>FunctionDef\<close>.
  The objects \<^verbatim>\<open>arguments\<close>, \<^verbatim>\<open>arg\<close>, \<^verbatim>\<open>keyword\<close>, \<^verbatim>\<open>withitem\<close> and \<^verbatim>\<open>alias\<close> are typed
  fields of their parent: the program has no visitor for them and never counts them, so
  \<open>iter_child_nodes\<close> lists their own children in their place. Expression contexts
  (\<^verbatim>\<open>Load\<close>, \<^verbatim>\<open>Store\<close>) are left out for the same reason.
\<close>

datatype pyconst = CNone | CBool bool | CInt int | CStr string | COther string string

datatype pyalias = Alias (alias_name: string) (asname: "string option")

datatype 'a arg = Arg (arg_name: string) (annotation: "'a option")

datatype 'a arguments = Arguments
  (posonlyargs: "'a arg list") (args: "'a arg list") (vararg: "'a arg option")
  (kwonlyargs: "'a arg list") (kw_defaults: "'a option list") (kwarg: "'a arg option")
  (defaults: "'a list")

datatype 'a keyword = Keyword (kw_arg: "string option") (kw_value: 'a)

datatype 'a withitem = WithItem (context_expr: 'a) (optional_vars: "'a option")

datatype ast =
    Module "ast list"
  | FunctionDef bool string "ast arguments" "ast list" "ast list" "ast option" nat "nat option"
  | ClassDef string "ast list" "ast keyword list" "ast list" "ast list" nat "nat option"
  | Return "ast option" nat
  | Assign "ast list" ast nat
  | For ast ast "ast list" "ast list" nat
  | While ast "ast list" "ast list" nat
  | PyIf ast "ast list" "ast list" nat
  | With "ast withitem list" "ast list" nat
  | Raise "ast option" "ast option" nat
  | Try "ast list" "ast list" "ast list" "ast list" nat
  | ExceptHandler "ast option" "ast list" nat
  | Assert ast "ast option" nat
  | Import "pyalias list" nat
  | ImportFrom "string option" "pyalias list" nat nat
  | BoolOp ast "ast list" nat
  | And
  | Or
  | IfExp ast ast ast nat
  | Call ast "ast list" "ast keyword list" nat
  | Constant pyconst nat
  | Attribute ast string nat
  | Name string nat
  | Other string "ast list" nat

definition opt_nodes :: "'a option \<Rightarrow> 'a list" where
  "opt_nodes x = (case x of None \<Rightarrow> [] | Some n \<Rightarrow> [n])"

definition arg_nodes :: "'a arg \<Rightarrow> 'a list" where
  "arg_nodes a = opt_nodes (annotation a)"

definition arguments_nodes :: "'a arguments \<Rightarrow> 'a list" where
  "arguments_nodes a =
     concat (map arg_nodes (posonlyargs a)) @ concat (map arg_nodes (args a)) @
     concat (map arg_nodes (opt_nodes (vararg a))) @ concat (map arg_nodes (kwonlyargs a)) @
     concat (map opt_nodes (kw_defaults a)) @ concat (map arg_nodes (opt_nodes (kwarg a))) @
     defaults a"

definition withitem_nodes :: "'a withitem \<Rightarrow> 'a list" where
  "withitem_nodes w = context_expr w # opt_nodes (optional_vars w)"

fun iter_child_nodes :: "ast \<Rightarrow> ast list" where
  "iter_child_nodes (Module body) = body"
| "iter_child_nodes (FunctionDef is_async name a body decorator_list returns l e) =
     arguments_nodes a @ body @ decorator_list @ opt_nodes returns"
| "iter_child_nodes (ClassDef name bases keywords body decorator_list l e) =
     bases @ map kw_value keywords @ body @ decorator_list"
| "iter_child_nodes (Return v l) = opt_nodes v"
| "iter_child_nodes (Assign targets v l) = targets @ [v]"
| "iter_child_nodes (For target iter body orelse l) = target # iter # body @ orelse"
| "iter_child_nodes (While test body orelse l) = test # body @ orelse"
| "iter_child_nodes (PyIf test body orelse l) = test # body @ orelse"
| "iter_child_nodes (With items body l) = concat (map withitem_nodes items) @ body"
| "iter_child_nodes (Raise exc cause l) = opt_nodes exc @ opt_nodes cause"
| "iter_child_nodes (Try body handlers orelse finalbody l) = body @ handlers @ orelse @ finalbody"
| "iter_child_nodes (ExceptHandler t body l) = opt_nodes t @ body"
| "iter_child_nodes (Assert test msg l) = test # opt_nodes msg"
| "iter_child_nodes (Import names l) = []"
| "iter_child_nodes (ImportFrom m names level l) = []"
| "iter_child_nodes (BoolOp op vals l) = op # vals"
| "iter_child_nodes And = []"
| "iter_child_nodes Or = []"
| "iter_child_nodes (IfExp test b orelse l) = [test, b, orelse]"
| "iter_child_nodes (Call func as keywords l) = func # as @ map kw_value keywords"
| "iter_child_nodes (Constant c l) = []"
| "iter_child_nodes (Attribute v attr l) = [v]"
| "iter_child_nodes (Name ident l) = []"
| "iter_child_nodes (Other cls children l) = children"

lemma sum_size_list: "sum_list (map f xs) \<le> size_list f xs"
  by (induction xs) auto

lemma sum_opt_nodes: "sum_list (map f (opt_nodes x)) \<le> size_option f x"
  by (cases x) (auto simp: opt_nodes_def)

lemma sum_arg_nodes: "sum_list (map f (arg_nodes a)) \<le> size_arg f a"
  using sum_opt_nodes[of f "annotation a"] by (cases a) (auto simp: arg_nodes_def)

lemma sum_concat_nodes:
  assumes "\<And>x. sum_list (map h (g x)) \<le> f x"
  shows "sum_list (map h (concat (map g xs))) \<le> size_list f xs"
proof (induction xs)
  case Nil show ?case by simp
next
  case (Cons x xs)
  with assms[of x] show ?case by simp
qed

lemma sum_opt_arg_nodes:
  "sum_list (map f (concat (map arg_nodes (opt_nodes x)))) \<le> size_option (size_arg f) x"
  using sum_arg_nodes[of f "the x"] by (cases x) (auto simp: opt_nodes_def)

lemma sum_arguments_nodes: "sum_list (map f (arguments_nodes a)) < size_arguments f a"
proof (cases a)
  case (Arguments p q v k kd kw d)
  have 1: "sum_list (map f (concat (map arg_nodes p))) \<le> size_list (size_arg f) p"
    and 2: "sum_list (map f (concat (map arg_nodes q))) \<le> size_list (size_arg f) q"
    and 4: "sum_list (map f (concat (map arg_nodes k))) \<le> size_list (size_arg f) k"
    by (rule sum_concat_nodes, rule sum_arg_nodes)+
  have 5: "sum_list (map f (concat (map opt_nodes kd))) \<le> size_list (size_option f) kd"
    by (rule sum_concat_nodes, rule sum_opt_nodes)
  note 3 = sum_opt_arg_nodes[of f v] and 6 = sum_opt_arg_nodes[of f kw]
    and 7 = sum_size_list[of f d]
  show ?thesis using 1 2 3 4 5 6 7 by (simp add: Arguments arguments_nodes_def)
qed

lemma sum_kw_values: "sum_list (map f (map kw_value ks)) \<le> size_list (size_keyword f) ks"
proof (induction ks)
  case Nil show ?case by simp
next
  case (Cons k ks) then show ?case by (cases k) auto
qed

lemma sum_withitem_nodes: "sum_list (map f (withitem_nodes w)) \<le> size_withitem f w"
  using sum_opt_nodes[of f "optional_vars w"] by (cases w) (auto simp: withitem_nodes_def)

lemma sum_list_children:
  "iter_child_nodes n = [] \<or> sum_list (map size (iter_child_nodes n)) < size n"
proof (cases n)
  case (FunctionDef x1 x2 a body decs ret l e)
  show ?thesis
    using sum_arguments_nodes[of size a] sum_size_list[of size body] sum_size_list[of size decs]
      sum_opt_nodes[of size ret]
    by (simp add: FunctionDef)
next
  case (ClassDef x1 bases ks body decs l e)
  show ?thesis
    using sum_kw_values[of size ks] sum_size_list[of size body] sum_size_list[of size decs]
      sum_size_list[of size bases]
    by (simp add: ClassDef)
next
  case (With items body l)
  have "sum_list (map size (concat (map withitem_nodes items))) \<le> size_list (size_withitem size) items"
    by (rule sum_concat_nodes, rule sum_withitem_nodes)
  then show ?thesis using sum_size_list[of size body] by (simp add: With)
next
  case (Call fn as ks l)
  show ?thesis using sum_kw_values[of size ks] sum_size_list[of size as] by (simp add: Call)
next
  case (Try b h o1 f l)
  show ?thesis using sum_size_list[of size b] sum_size_list[of size h] sum_size_list[of size o1]
      sum_size_list[of size f] by (simp add: Try)
next
  case (For t i b o1 l)
  show ?thesis using sum_size_list[of size b] sum_size_list[of size o1] by (simp add: For)
next
  case (While t b o1 l)
  show ?thesis using sum_size_list[of size b] sum_size_list[of size o1] by (simp add: While)
next
  case (PyIf t b o1 l)
  show ?thesis using sum_size_list[of size b] sum_size_list[of size o1] by (simp add: PyIf)
next
  case (Raise a b l)
  show ?thesis using sum_opt_nodes[of size a] sum_opt_nodes[of size b] by (simp add: Raise)
next
  case (ExceptHandler a b l)
  show ?thesis using sum_opt_nodes[of size a] sum_size_list[of size b] by (simp add: ExceptHandler)
next
  case (Assert a b l)
  show ?thesis using sum_opt_nodes[of size b] by (simp add: Assert)
next
  case (Return a l)
  show ?thesis using sum_opt_nodes[of size a] by (simp add: Return)
next
  case (Assign ts v l)
  show ?thesis using sum_size_list[of size ts] by (simp add: Assign)
next
  case (Module b)
  show ?thesis using sum_size_list[of size b] by (simp add: Module)
next
  case (BoolOp a b l)
  show ?thesis using sum_size_list[of size b] by (simp add: BoolOp)
next
  case (Other a b l)
  show ?thesis using sum_size_list[of size b] by (simp add: Other)
qed simp_all

lemma size_child: "c \<in> set (iter_child_nodes n) \<Longrightarrow> size c < size n"
  using member_le_sum_list[of "size c" "map size (iter_child_nodes n)"] sum_list_children[of n]
  by force

function descendants :: "ast \<Rightarrow> ast list" where
  "descendants n = n # concat (map descendants (iter_child_nodes n))"
  by pat_completeness auto
termination
  by (relation "measure size") (auto simp: size_child)

declare descendants.simps [simp del]

definition weight :: "ast list \<Rightarrow> nat" where
  "weight todo = sum_list (map (\<lambda>n. length (descendants n)) todo)"

lemma length_descendants:
  "length (descendants n) = Suc (\<Sum>c\<leftarrow>iter_child_nodes n. length (descendants c))"
  by (subst descendants.simps) (simp add: length_concat comp_def)

lemma weight_step: "weight (todo @ iter_child_nodes n) < weight (n # todo)"
  using length_descendants[of n] by (simp add: weight_def)

function walk_queue :: "ast list \<Rightarrow> ast list" where
  "walk_queue [] = []"
| "walk_queue (n # todo) = n # walk_queue (todo @ iter_child_nodes n)"
  by pat_completeness auto
termination
  by (relation "measure weight") (auto simp: weight_step)

definition walk :: "ast \<Rightarrow> ast list" where
  "walk node = walk_queue [node]"

section \<open>Records and library functions\<close>

datatype pyval =
    PNone
  | PBool bool
  | PInt int
  | PStr string
  | PList "pyval list"
  | PDict "(pyval \<times> pyval) list"

type_synonym pydict = "(string \<times> pyval) list"

record pylib =
  sha1_hex :: "string \<Rightarrow> string"
  unparse :: "ast \<Rightarrow> string option"
  get_docstring :: "ast \<Rightarrow> string option"
  splitlines :: "string \<Rightarrow> string list"
  json_dumps :: "pyval \<Rightarrow> string"

fun join :: "string \<Rightarrow> string list \<Rightarrow> string" where
  "join sep [] = []"
| "join sep [x] = x"
| "join sep (x # y # ys) = x @ sep @ join sep (y # ys)"

definition stable_id :: "pylib \<Rightarrow> string list \<Rightarrow> string" where
  "stable_id L parts = sha1_hex L (join ''::'' parts)"

fun isinstance_branch :: "ast \<Rightarrow> bool" where
  "isinstance_branch (PyIf t b e l) = True"
| "isinstance_branch (For t i b e l) = True"
| "isinstance_branch (While t b e l) = True"
| "isinstance_branch And = True"
| "isinstance_branch Or = True"
| "isinstance_branch (ExceptHandler t b l) = True"
| "isinstance_branch (With i b l) = True"
| "isinstance_branch (Assert t m l) = True"
| "isinstance_branch _ = False"

definition complexity_step :: "int \<Rightarrow> ast \<Rightarrow> int" where
  "complexity_step complexity child =
     (if isinstance_branch child then complexity + 1
      else (case child of
              BoolOp op vals l \<Rightarrow> complexity + (int (length vals) - 1)
            | _ \<Rightarrow> complexity))"

definition calculate_complexity :: "ast \<Rightarrow> int" where
  "calculate_complexity node = foldl complexity_step 1 (walk node)"

subsection \<open>What the specification counts\<close>

fun is_decision :: "ast \<Rightarrow> bool" where
  "is_decision (PyIf t b e l) = True"
| "is_decision (For t i b e l) = True"
| "is_decision (While t b e l) = True"
| "is_decision (ExceptHandler t b l) = True"
| "is_decision (With i b l) = True"
| "is_decision (Assert t m l) = True"
| "is_decision _ = False"

fun is_bool_operator :: "ast \<Rightarrow> bool" where
  "is_bool_operator And = True"
| "is_bool_operator Or = True"
| "is_bool_operator _ = False"

fun boolop_extra :: "ast \<Rightarrow> int" where
  "boolop_extra (BoolOp op vals l) = int (length vals) - 1"
| "boolop_extra _ = 0"

definition spec_complexity :: "ast \<Rightarrow> int" where
  "spec_complexity f =
     1 + int (length (filter is_decision (descendants f)))
       + sum_list (map boolop_extra (descendants f))"

definition return_a_and_b :: ast where
  "return_a_and_b =
     FunctionDef False ''f'' (Arguments [] [] None [] [] None [])
       [Return (Some (BoolOp And [Name ''a'' 1, Name ''b'' 1] 1)) 1] [] None 1 (Some 1)"

lemma sum_concat_map:
  "(\<Sum>x\<leftarrow>concat (map g xs). f x) = (\<Sum>t\<leftarrow>xs. \<Sum>x\<leftarrow>g t. (f x :: int))"
  by (induction xs) simp_all

lemma sum_walk_queue:
  "(\<Sum>x\<leftarrow>walk_queue todo. f x) = (\<Sum>t\<leftarrow>todo. \<Sum>x\<leftarrow>descendants t. (f x :: int))"
proof (induction todo rule: walk_queue.induct)
  case 1
  show ?case by simp
next
  case (2 n todo)
  have "(\<Sum>x\<leftarrow>descendants n. f x) = f n + (\<Sum>c\<leftarrow>iter_child_nodes n. \<Sum>x\<leftarrow>descendants c. f x)"
    by (subst descendants.simps) (simp add: sum_concat_map)
  with 2 show ?case by simp
qed

lemma complexity_step_eq:
  "complexity_step c x = c + (if isinstance_branch x then 1 else boolop_extra x)"
  by (cases x) (simp_all add: complexity_step_def)

lemma foldl_complexity_step:
  "foldl complexity_step c xs =
     c + (\<Sum>x\<leftarrow>xs. (if isinstance_branch x then 1 else boolop_extra x))"
proof (induction xs arbitrary: c)
  case Nil
  show ?case by simp
next
  case (Cons x xs)
  have "foldl complexity_step c (x # xs) = foldl complexity_step (complexity_step c x) xs"
    by simp
  also have "\<dots> = complexity_step c x
      + (\<Sum>x\<leftarrow>xs. (if isinstance_branch x then 1 else boolop_extra x))"
    by (rule Cons)
  finally show ?case by (simp add: complexity_step_eq[of c x] del: foldl_Cons)
qed

lemma branch_split:
  "(if isinstance_branch x then 1 else boolop_extra x) =
     of_bool (is_decision x) + of_bool (is_bool_operator x) + boolop_extra x"
  by (cases x) simp_all

lemma sum_of_bool_filter: "(\<Sum>x\<leftarrow>xs. (of_bool (P x) :: int)) = int (length (filter P xs))"
  by (induction xs) simp_all

text \<open>
  What \<^verbatim>\<open>calculate_complexity\<close> computes: 1, plus one for each \<^verbatim>\<open>If\<close>, \<^verbatim>\<open>For\<close>, \<^verbatim>\<open>While\<close>,
  \<^verbatim>\<open>ExceptHandler\<close>, \<^verbatim>\<open>With\<close> or \<^verbatim>\<open>Assert\<close> node of the subtree, plus one for each boolean
  operator node (\<^verbatim>\<open>And\<close>, \<^verbatim>\<open>Or\<close>) of the subtree, plus the operand count minus 1 of each
  boolean expression. \<^verbatim>\<open>ast.walk\<close> yields the operator node of every \<^verbatim>\<open>BoolOp\<close>, and the
  \<^verbatim>\<open>isinstance\<close> test lists \<^verbatim>\<open>ast.And\<close> and \<^verbatim>\<open>ast.Or\<close>, so the operators of a boolean expression
  are counted twice.
\<close>

lemma calculate_complexity_counts:
  "calculate_complexity f =
     1 + int (length (filter is_decision (descendants f)))
       + int (length (filter is_bool_operator (descendants f)))
       + sum_list (map boolop_extra (descendants f))"
proof -
  have "calculate_complexity f =
      1 + (\<Sum>x\<leftarrow>descendants f. of_bool (is_decision x) + of_bool (is_bool_operator x) + boolop_extra x)"
    unfolding calculate_complexity_def walk_def foldl_complexity_step sum_walk_queue branch_split
    by simp
  then show ?thesis
    by (simp add: sum_list_addf sum_of_bool_filter)
qed

text \<open>
  Claim C1. The complexity of a function is 1, plus one per conditional, loop, exception
  handler, context manager and assert node of its subtree, plus the operand count minus 1
  of each boolean expression, and nothing else. For \<^verbatim>\<open>def f(): return a and b\<close> that is 2;
  the code records 3.
\<close>

theorem calculate_complexity_double_counts:
  "calculate_complexity return_a_and_b = 3 \<and> spec_complexity return_a_and_b = 2"
  by (simp add: calculate_complexity_def spec_complexity_def walk_def return_a_and_b_def
      complexity_step_def descendants.simps arguments_nodes_def opt_nodes_def)

section \<open>Stable identifiers\<close>

definition no_colon :: "string \<Rightarrow> bool" where
  "no_colon p = (CHR '':'' \<notin> set p)"

definition startswith :: "string \<Rightarrow> string \<Rightarrow> bool" where
  "startswith s pre = (take (length pre) s = pre)"

fun contains :: "string \<Rightarrow> string \<Rightarrow> bool" where
  "contains sub [] = (sub = [])"
| "contains sub (c # cs) = (startswith (c # cs) sub \<or> contains sub cs)"

definition contains_sep :: "string \<Rightarrow> bool" where
  "contains_sep p = contains ''::'' p"

lemma colon_split:
  "no_colon p \<Longrightarrow> no_colon q \<Longrightarrow> p @ CHR '':'' # x = q @ CHR '':'' # y \<Longrightarrow> p = q \<and> x = y"
proof (induction p arbitrary: q)
  case Nil
  then show ?case by (cases q) (auto simp: no_colon_def)
next
  case (Cons a p)
  then show ?case by (cases q) (auto simp: no_colon_def)
qed

lemma join_Cons: "join sep (x # xs) = (if xs = [] then x else x @ sep @ join sep xs)"
  by (cases xs) simp_all

lemma join_inj:
  "ps \<noteq> [] \<Longrightarrow> qs \<noteq> [] \<Longrightarrow> list_all no_colon ps \<Longrightarrow> list_all no_colon qs \<Longrightarrow>
   join ''::'' ps = join ''::'' qs \<Longrightarrow> ps = qs"
proof (induction ps arbitrary: qs)
  case Nil
  then show ?case by simp
next
  case (Cons p ps')
  from Cons.prems obtain q qs' where qs: "qs = q # qs'" by (cases qs) auto
  from Cons.prems qs have np: "no_colon p" and nq: "no_colon q"
    and nps: "list_all no_colon ps'" and nqs: "list_all no_colon qs'" by simp_all
  from Cons.prems qs have eq: "join ''::'' (p # ps') = join ''::'' (q # qs')" by simp
  show ?case
  proof (cases "ps' = []")
    case True
    show ?thesis
    proof (cases "qs' = []")
      case True
      with \<open>ps' = []\<close> eq qs show ?thesis by simp
    next
      case False
      with \<open>ps' = []\<close> eq have "p = q @ CHR '':'' # CHR '':'' # join ''::'' qs'"
        by (simp add: join_Cons)
      with np have False by (simp add: no_colon_def)
      then show ?thesis ..
    qed
  next
    case False
    show ?thesis
    proof (cases "qs' = []")
      case True
      with \<open>ps' \<noteq> []\<close> eq have "q = p @ CHR '':'' # CHR '':'' # join ''::'' ps'"
        by (simp add: join_Cons)
      with nq have False by (simp add: no_colon_def)
      then show ?thesis ..
    next
      case qne: False
      with False eq have "p @ CHR '':'' # (CHR '':'' # join ''::'' ps')
          = q @ CHR '':'' # (CHR '':'' # join ''::'' qs')"
        by (simp add: join_Cons)
      from colon_split[OF np nq this] have "p = q" and "join ''::'' ps' = join ''::'' qs'"
        by simp_all
      with Cons.IH[OF False qne nps nqs] qs show ?thesis by simp
    qed
  qed
qed


definition hex_identity :: pylib where
  "hex_identity = \<lparr>sha1_hex = (\<lambda>s. CHR ''h'' # s), unparse = (\<lambda>n. None), get_docstring = (\<lambda>n. None),
     splitlines = (\<lambda>s. [s]), json_dumps = (\<lambda>v. [])\<rparr>"



section \<open>Exceptions, paths and the file system\<close>

datatype exn =
    KeyError | ValueError | AttributeError | TypeError | RecursionError
  | SyntaxError | UnicodeDecodeError | OSError

text \<open>
  A \<^verbatim>\<open>Path\<close> is the list of its components; \<open>str_path\<close> is \<^verbatim>\<open>str(path)\<close>. A directory is its
  name, its subdirectories and the names of its files.
\<close>

type_synonym path = "string list"

definition str_path :: "path \<Rightarrow> string" where
  "str_path p = (if p = [] then ''.'' else join ''/'' p)"

definition path_name :: "path \<Rightarrow> string" where
  "path_name p = (if p = [] then [] else last p)"

definition path_parent :: "path \<Rightarrow> path" where
  "path_parent p = butlast p"

definition relative_to :: "path \<Rightarrow> path \<Rightarrow> exn + path" where
  "relative_to p root =
     (if take (length root) p = root then Inr (drop (length root) p) else Inl ValueError)"

definition endswith :: "string \<Rightarrow> string \<Rightarrow> bool" where
  "endswith s suf = (length suf \<le> length s \<and> drop (length s - length suf) s = suf)"

datatype dirtree = Dir (dir_name: string) (subdirs: "dirtree list") (files: "string list")

text \<open>
  \<^verbatim>\<open>os.walk(root)\<close>, top down. The loop body of both callers first prunes \<^verbatim>\<open>dirnames\<close> in
  place, which also prunes the walk; \<open>keep\<close> is the test of that list comprehension and the
  triples are the ones the rest of the loop body sees.
\<close>

fun os_walk :: "(string \<Rightarrow> bool) \<Rightarrow> path \<Rightarrow> dirtree \<Rightarrow> (path \<times> string list \<times> string list) list" where
  "os_walk keep p (Dir name subs fs) =
     (p, filter keep (map dir_name subs), fs) #
     concat (map (\<lambda>d. os_walk keep (p @ [dir_name d]) d) (filter (\<lambda>d. keep (dir_name d)) subs))"

definition kept :: "string list \<Rightarrow> string \<Rightarrow> bool" where
  "kept exclude d = (d \<notin> set exclude \<and> \<not> startswith d ''.'')"

definition is_python_file :: "string \<Rightarrow> bool" where
  "is_python_file filename = (endswith filename ''.py'' \<and> \<not> startswith filename ''.'')"

definition find_python_files :: "path \<Rightarrow> string list option \<Rightarrow> dirtree \<Rightarrow> path list" where
  "find_python_files root exclude tree =
     (let exclude = (case exclude of
                       None \<Rightarrow> [''.git'', ''__pycache__'', ''node_modules'', ''.venv'', ''venv'']
                     | Some e \<Rightarrow> e)
      in concat (map (\<lambda>(dirpath, dirnames, filenames).
                        map (\<lambda>filename. dirpath @ [filename]) (filter is_python_file filenames))
                     (os_walk (kept exclude) root tree)))"

record walker =
  dir_to_id :: "path \<rightharpoonup> string"
  w_nodes :: "pydict list"
  w_edges :: "pydict list"

definition truthy :: "string option \<Rightarrow> bool" where
  "truthy x = (case x of None \<Rightarrow> False | Some s \<Rightarrow> s \<noteq> [])"

definition enter_directory :: "pylib \<Rightarrow> path \<Rightarrow> path \<Rightarrow> walker \<Rightarrow> exn + (string \<times> walker)" where
  "enter_directory L root current_path w =
     (if truthy (dir_to_id w current_path) then Inr (the (dir_to_id w current_path), w)
      else
        (let current_id = stable_id L [str_path current_path] in
         case relative_to current_path root of
           Inl e \<Rightarrow> Inl e
         | Inr rel \<Rightarrow>
            (let w1 = w\<lparr>dir_to_id := (dir_to_id w)(current_path \<mapsto> current_id),
                         w_nodes := w_nodes w @
                           [[(''id'', PStr current_id), (''type'', PStr ''Directory''),
                             (''name'', PStr (path_name current_path)),
                             (''path'', PStr (str_path current_path)),
                             (''relpath'', PStr (str_path rel))]]\<rparr>;
                 parent_path = path_parent current_path
             in case dir_to_id w1 parent_path of
                  None \<Rightarrow> Inr (current_id, w1)
                | Some pid \<Rightarrow>
                    Inr (current_id, w1\<lparr>w_edges := w_edges w1 @
                      [[(''type'', PStr ''CONTAINS''), (''from_id'', PStr pid),
                        (''to_id'', PStr current_id),
                        (''relationship'', PStr ''contains_directory'')]]\<rparr>))))"

definition add_subdirectory :: "pylib \<Rightarrow> path \<Rightarrow> path \<Rightarrow> string \<Rightarrow> string \<Rightarrow> walker \<Rightarrow> exn + walker" where
  "add_subdirectory L root current_path current_id dirname w =
     (let dir_path = current_path @ [dirname];
          dir_id = stable_id L [str_path dir_path]
      in case relative_to dir_path root of
           Inl e \<Rightarrow> Inl e
         | Inr rel \<Rightarrow>
             Inr (w\<lparr>dir_to_id := (dir_to_id w)(dir_path \<mapsto> dir_id),
                    w_nodes := w_nodes w @
                      [[(''id'', PStr dir_id), (''type'', PStr ''Directory''),
                        (''name'', PStr dirname), (''path'', PStr (str_path dir_path)),
                        (''relpath'', PStr (str_path rel))]],
                    w_edges := w_edges w @
                      [[(''type'', PStr ''CONTAINS''), (''from_id'', PStr current_id),
                        (''to_id'', PStr dir_id),
                        (''relationship'', PStr ''contains_directory'')]]\<rparr>))"

definition add_file_edge :: "pylib \<Rightarrow> path \<Rightarrow> string \<Rightarrow> string \<Rightarrow> walker \<Rightarrow> walker" where
  "add_file_edge L current_path current_id filename w =
     (if is_python_file filename then
        w\<lparr>w_edges := w_edges w @
          [[(''type'', PStr ''CONTAINS''), (''from_id'', PStr current_id),
            (''to_id'', PStr (stable_id L [str_path (current_path @ [filename])])),
            (''relationship'', PStr ''contains_file'')]]\<rparr>
      else w)"

fun fold_exn :: "('a \<Rightarrow> 's \<Rightarrow> exn + 's) \<Rightarrow> 'a list \<Rightarrow> 's \<Rightarrow> exn + 's" where
  "fold_exn f [] s = Inr s"
| "fold_exn f (x # xs) s = (case f x s of Inl e \<Rightarrow> Inl e | Inr s' \<Rightarrow> fold_exn f xs s')"

definition walk_step :: "pylib \<Rightarrow> path \<Rightarrow> (path \<times> string list \<times> string list) \<Rightarrow> walker \<Rightarrow> exn + walker" where
  "walk_step L root triple w =
     (case triple of (current_path, dirnames, filenames) \<Rightarrow>
        (case enter_directory L root current_path w of
           Inl e \<Rightarrow> Inl e
         | Inr (current_id, w1) \<Rightarrow>
             (case fold_exn (add_subdirectory L root current_path current_id) dirnames w1 of
                Inl e \<Rightarrow> Inl e
              | Inr w2 \<Rightarrow> Inr (fold (add_file_edge L current_path current_id) filenames w2))))"

definition build_directory_tree :: "pylib \<Rightarrow> path \<Rightarrow> string list option \<Rightarrow> dirtree \<Rightarrow> exn + walker" where
  "build_directory_tree L root exclude tree =
     (let exclude = (case exclude of
                       None \<Rightarrow> [''.git'', ''__pycache__'', ''node_modules'', ''.venv'', ''venv'',
                                ''.tox'', ''build'', ''dist'', ''.eggs'']
                     | Some e \<Rightarrow> e);
          repo_id = stable_id L [str_path root];
          w0 = \<lparr>dir_to_id = [root \<mapsto> repo_id],
                w_nodes = [[(''id'', PStr repo_id), (''type'', PStr ''Repository''),
                            (''name'', PStr (path_name root)), (''path'', PStr (str_path root))]],
                w_edges = []\<rparr>
      in fold_exn (walk_step L root) (os_walk (kept exclude) root tree) w0)"

definition repo_with_venv :: dirtree where
  "repo_with_venv = Dir ''repo'' [Dir ''venv'' [] [''x.py''], Dir ''.git'' [] [''h.py'']] [''a.py'']"

section \<open>Graph loader\<close>

text \<open>
  The loader's two insertion methods, \<^verbatim>\<open>batch_insert_nodes\<close> and \<^verbatim>\<open>batch_insert_edges\<close>. Each
  starts its counters at 0; the model returns the loader state at the end of the call
  (the Python returns \<^verbatim>\<open>total_inserted\<close> and prints the number of skipped external
  references). A step of 0 makes \<^verbatim>\<open>range\<close> raise \<^verbatim>\<open>ValueError\<close> at the first group, before any
  statement is sent. A \<^verbatim>\<open>type\<close> that is a list or an object cannot be a dictionary key
  (\<^verbatim>\<open>TypeError\<close>). The record format gives every edge a string \<^verbatim>\<open>type\<close>; for an edge whose
  \<^verbatim>\<open>type\<close> is another value the model reports \<^verbatim>\<open>TypeError\<close> as well and follows the
  Python no further. Opening the session is taken to succeed.

  The store is outside the program. A statement is what one \<^verbatim>\<open>session.run(query, batch=...)\<close>
  sends: the label or relationship type written into the query text and the batch. A
  session answers a statement, in a store state, with an exception or with the
  \<^verbatim>\<open>relationships_created\<close> counter of the result summary, and a new store state. The
  loader keeps a trace of every statement it sent and the answer it got.
\<close>

datatype statement =
    CreateNodes (label: string) (records: "pydict list")
  | CreateRelationships (label: string) (records: "pydict list")

type_synonym 'st session = "statement \<Rightarrow> 'st \<Rightarrow> (exn + nat) \<times> 'st"

record 'st loader =
  store :: 'st
  total_inserted :: nat
  skipped_external :: nat
  trace :: "(statement \<times> (exn + nat)) list"

definition new_loader :: "'st \<Rightarrow> 'st loader" where
  "new_loader st = \<lparr>store = st, total_inserted = 0, skipped_external = 0, trace = []\<rparr>"

definition session_run :: "'st session \<Rightarrow> statement \<Rightarrow> 'st loader \<Rightarrow> (exn + nat) \<times> 'st loader" where
  "session_run run stmt ld =
     (case run stmt (store ld) of
        (res, st') \<Rightarrow> (res, ld\<lparr>store := st', trace := trace ld @ [(stmt, res)]\<rparr>))"

function batches :: "nat \<Rightarrow> 'a list \<Rightarrow> 'a list list" where
  "batches n xs = (if n = 0 \<or> xs = [] then [] else take n xs # batches n (drop n xs))"
  by pat_completeness auto
termination
  by (relation "measure (\<lambda>(n, xs). length xs)") auto

declare batches.simps [simp del]

text \<open>
  \<^verbatim>\<open>for i in range(0, len(xs), batch_size): batch = xs[i:i+batch_size]\<close>, for a batch size other
  than 0 (\<^verbatim>\<open>range\<close> raises \<^verbatim>\<open>ValueError\<close> for a step of 0; a negative step gives no batch).
\<close>

definition py_batches :: "int \<Rightarrow> 'a list \<Rightarrow> 'a list list" where
  "py_batches batch_size xs = (if batch_size < 0 then [] else batches (nat batch_size) xs)"

definition is_container :: "pyval \<Rightarrow> bool" where
  "is_container v = (case v of PList _ \<Rightarrow> True | PDict _ \<Rightarrow> True | _ \<Rightarrow> False)"

definition clean_value :: "pylib \<Rightarrow> pyval \<Rightarrow> pyval" where
  "clean_value L v = (if is_container v then PStr (json_dumps L v) else v)"

definition clean_items :: "pylib \<Rightarrow> pydict \<Rightarrow> pydict" where
  "clean_items L d = map (\<lambda>(k, v). (k, clean_value L v)) (filter (\<lambda>(k, v). v \<noteq> PNone) d)"

subsection \<open>Nodes\<close>

definition pop_type :: "pydict \<Rightarrow> exn + (pyval \<times> pydict)" where
  "pop_type node =
     (case map_of node ''type'' of
        None \<Rightarrow> Inl KeyError
      | Some t \<Rightarrow> if is_container t then Inl TypeError
                  else Inr (t, filter (\<lambda>(k, v). k \<noteq> ''type'') node))"

fun group_nodes :: "pydict list \<Rightarrow> exn + (pyval \<times> pydict) list" where
  "group_nodes [] = Inr []"
| "group_nodes (node # nodes) =
     (case pop_type node of
        Inl e \<Rightarrow> Inl e
      | Inr tn \<Rightarrow> (case group_nodes nodes of Inl e \<Rightarrow> Inl e | Inr rest \<Rightarrow> Inr (tn # rest)))"

definition nodes_of_type :: "(pyval \<times> pydict) list \<Rightarrow> string \<Rightarrow> pydict list" where
  "nodes_of_type nodes_by_type node_type = map snd (filter (\<lambda>(t, n). t = PStr node_type) nodes_by_type)"

definition type_order :: "string list" where
  "type_order = [''Repository'', ''Directory'', ''File'', ''Module'', ''Class'', ''Function'', ''Method'',
                 ''Variable'', ''Parameter'', ''Decorator'', ''Import'']"

definition insert_single_node :: "'st session \<Rightarrow> string \<Rightarrow> pydict \<Rightarrow> 'st loader \<Rightarrow> 'st loader" where
  "insert_single_node run node_type single_node ld =
     (case session_run run (CreateNodes node_type [single_node]) ld of
        (Inr c, ld') \<Rightarrow> ld'\<lparr>total_inserted := total_inserted ld' + 1\<rparr>
      | (Inl e, ld') \<Rightarrow> ld')"

definition insert_node_batch :: "pylib \<Rightarrow> 'st session \<Rightarrow> string \<Rightarrow> pydict list \<Rightarrow> 'st loader \<Rightarrow> 'st loader" where
  "insert_node_batch L run node_type batch ld =
     (let cleaned_batch = map (clean_items L) batch
      in case session_run run (CreateNodes node_type cleaned_batch) ld of
           (Inr c, ld') \<Rightarrow> ld'\<lparr>total_inserted := total_inserted ld' + length batch\<rparr>
         | (Inl e, ld') \<Rightarrow> fold (insert_single_node run node_type) cleaned_batch ld')"

definition insert_node_type ::
  "pylib \<Rightarrow> 'st session \<Rightarrow> int \<Rightarrow> (pyval \<times> pydict) list \<Rightarrow> string \<Rightarrow> 'st loader \<Rightarrow> 'st loader" where
  "insert_node_type L run batch_size nodes_by_type node_type ld =
     fold (insert_node_batch L run node_type)
       (py_batches batch_size (nodes_of_type nodes_by_type node_type)) ld"

definition batch_insert_nodes ::
  "pylib \<Rightarrow> 'st session \<Rightarrow> int \<Rightarrow> pydict list \<Rightarrow> 'st \<Rightarrow> exn + 'st loader" where
  "batch_insert_nodes L run batch_size nodes st =
     (case group_nodes nodes of
        Inl e \<Rightarrow> Inl e
      | Inr nodes_by_type \<Rightarrow>
          if batch_size = 0 \<and> list_ex (\<lambda>t. nodes_of_type nodes_by_type t \<noteq> []) type_order
          then Inl ValueError
          else Inr (fold (insert_node_type L run batch_size nodes_by_type) type_order
                      (new_loader st)))"

subsection \<open>Edges\<close>

definition has_key :: "string \<Rightarrow> pydict \<Rightarrow> bool" where
  "has_key k d = (map_of d k \<noteq> None)"

definition edge_type :: "pydict \<Rightarrow> exn + string" where
  "edge_type edge =
     (case map_of edge ''type'' of
        None \<Rightarrow> Inl KeyError
      | Some (PStr t) \<Rightarrow> Inr t
      | Some _ \<Rightarrow> Inl TypeError)"

fun group_edges :: "pydict list \<Rightarrow> exn + (string \<times> pydict) list" where
  "group_edges [] = Inr []"
| "group_edges (edge # edges) =
     (case edge_type edge of
        Inl e \<Rightarrow> Inl e
      | Inr t \<Rightarrow> (case group_edges edges of Inl e \<Rightarrow> Inl e | Inr rest \<Rightarrow> Inr ((t, edge) # rest)))"

definition edges_of_type :: "(string \<times> pydict) list \<Rightarrow> string \<Rightarrow> pydict list" where
  "edges_of_type edges_by_type t = map snd (filter (\<lambda>(t', e). t' = t) edges_by_type)"

definition is_direct :: "pydict \<Rightarrow> bool" where
  "is_direct e = (has_key ''to_id'' e \<or> has_key ''to'' e)"

definition endpoint :: "string \<Rightarrow> string \<Rightarrow> string \<Rightarrow> pydict \<Rightarrow> pydict" where
  "endpoint name key_id key edge =
     (case map_of edge key_id of
        Some v \<Rightarrow> [(name, v)]
      | None \<Rightarrow> (case map_of edge key of Some v \<Rightarrow> [(name, v)] | None \<Rightarrow> []))"

definition edge_properties :: "pylib \<Rightarrow> pydict \<Rightarrow> pyval" where
  "edge_properties L edge =
     PDict (map (\<lambda>(k, v). (PStr k, v))
       (clean_items L
          (filter (\<lambda>(k, v). k \<notin> set [''type'', ''from'', ''to'', ''from_id'', ''to_id'', ''to_name'']) edge)))"

definition normalize_edge :: "pylib \<Rightarrow> pydict \<Rightarrow> pydict" where
  "normalize_edge L edge =
     endpoint ''from'' ''from_id'' ''from'' edge @ endpoint ''to'' ''to_id'' ''to'' edge @
     [(''properties'', edge_properties L edge)]"

definition insert_single_edge :: "'st session \<Rightarrow> string \<Rightarrow> pydict \<Rightarrow> 'st loader \<Rightarrow> 'st loader" where
  "insert_single_edge run etype single_edge ld =
     (case session_run run (CreateRelationships etype [single_edge]) ld of
        (Inr c, ld') \<Rightarrow> ld'\<lparr>total_inserted := total_inserted ld' + c\<rparr>
      | (Inl e, ld') \<Rightarrow> ld')"

definition insert_edge_batch :: "pylib \<Rightarrow> 'st session \<Rightarrow> string \<Rightarrow> pydict list \<Rightarrow> 'st loader \<Rightarrow> 'st loader" where
  "insert_edge_batch L run etype batch ld =
     (let normalized_batch = map (normalize_edge L) batch
      in case session_run run (CreateRelationships etype normalized_batch) ld of
           (Inr c, ld') \<Rightarrow> ld'\<lparr>total_inserted := total_inserted ld' + c\<rparr>
         | (Inl e, ld') \<Rightarrow> fold (insert_single_edge run etype) normalized_batch ld')"

definition insert_edge_type ::
  "pylib \<Rightarrow> 'st session \<Rightarrow> int \<Rightarrow> (string \<times> pydict) list \<Rightarrow> string \<Rightarrow> 'st loader \<Rightarrow> 'st loader" where
  "insert_edge_type L run batch_size edges_by_type etype ld =
     (let type_edges = edges_of_type edges_by_type etype;
          direct = filter is_direct type_edges;
          inferred = length type_edges - length direct;
          ld1 = ld\<lparr>skipped_external := skipped_external ld + inferred\<rparr>
      in fold (insert_edge_batch L run etype) (py_batches batch_size direct) ld1)"

definition batch_insert_edges ::
  "pylib \<Rightarrow> 'st session \<Rightarrow> int \<Rightarrow> pydict list \<Rightarrow> 'st \<Rightarrow> exn + 'st loader" where
  "batch_insert_edges L run batch_size edges st =
     (case group_edges edges of
        Inl e \<Rightarrow> Inl e
      | Inr edges_by_type \<Rightarrow>
          if batch_size = 0 \<and> edges_by_type \<noteq> [] then Inl ValueError
          else Inr (fold (insert_edge_type L run batch_size edges_by_type)
                      (sort (remdups (map fst edges_by_type))) (new_loader st)))"

subsection \<open>What a load inserts\<close>

definition succeeded :: "statement \<times> (exn + nat) \<Rightarrow> bool" where
  "succeeded t = (case snd t of Inr c \<Rightarrow> True | Inl e \<Rightarrow> False)"

definition created :: "statement \<times> (exn + nat) \<Rightarrow> nat" where
  "created t = (case snd t of Inr c \<Rightarrow> c | Inl e \<Rightarrow> 0)"

definition submitted :: "(statement \<times> (exn + nat)) list \<Rightarrow> pydict list" where
  "submitted tr = concat (map (\<lambda>t. records (fst t)) tr)"

definition inserted :: "(statement \<times> (exn + nat)) list \<Rightarrow> pydict list" where
  "inserted tr = submitted (filter succeeded tr)"

text \<open>A store that rejects a statement exactly when its batch holds a record it rejects alone.\<close>

definition rejects :: "'st session \<Rightarrow> (pydict \<Rightarrow> bool) \<Rightarrow> bool" where
  "rejects run bad = (\<forall>stmt st. isl (fst (run stmt st)) = list_ex bad (records stmt))"

lemma concat_batches: "0 < n \<Longrightarrow> concat (batches n xs) = xs"
proof (induction n xs rule: batches.induct)
  case (1 n xs)
  then show ?case by (subst batches.simps) auto
qed

lemma concat_py_batches: "0 < bs \<Longrightarrow> concat (py_batches bs xs) = xs"
  by (simp add: py_batches_def concat_batches)

lemma set_batches: "b \<in> set (batches n xs) \<Longrightarrow> set b \<subseteq> set xs"
proof (induction n xs rule: batches.induct)
  case (1 n xs)
  from "1.prems" have ne: "\<not> (n = 0 \<or> xs = [])"
    by (subst (asm) batches.simps) (auto split: if_splits)
  with "1.prems" have "b = take n xs \<or> b \<in> set (batches n (drop n xs))"
    by (subst (asm) batches.simps) auto
  then show ?case
  proof
    assume "b = take n xs" then show ?thesis by (auto dest: in_set_takeD)
  next
    assume "b \<in> set (batches n (drop n xs))"
    with "1.IH"[OF ne] show ?thesis by (auto dest: in_set_dropD)
  qed
qed

lemma set_py_batches: "b \<in> set (py_batches bs xs) \<Longrightarrow> set b \<subseteq> set xs"
  by (auto simp: py_batches_def dest: set_batches split: if_splits)

lemma session_run_fields:
  "session_run run stmt ld = (res, ld') \<Longrightarrow>
     fst (run stmt (store ld)) = res \<and> trace ld' = trace ld @ [(stmt, res)] \<and>
     total_inserted ld' = total_inserted ld \<and> skipped_external ld' = skipped_external ld"
  by (auto simp: session_run_def split: prod.splits)


lemma inserted_append: "inserted (tr @ tr') = inserted tr @ inserted tr'"
  by (simp add: inserted_def submitted_def)

lemma submitted_append: "submitted (tr @ tr') = submitted tr @ submitted tr'"
  by (simp add: submitted_def)

lemma inserted_one:
  "inserted [(stmt, res)] = (if isl res then [] else records stmt)"
  by (cases res) (simp_all add: inserted_def submitted_def succeeded_def)

lemma rejectsD: "rejects run bad \<Longrightarrow> isl (fst (run stmt st)) = list_ex bad (records stmt)"
  by (simp add: rejects_def)

lemma insert_single_node_inserted:
  assumes "rejects run bad"
  shows "inserted (trace (insert_single_node run t r ld))
           = inserted (trace ld) @ filter (\<lambda>r. \<not> bad r) [r]"
    and "total_inserted (insert_single_node run t r ld)
           = total_inserted ld + length (filter (\<lambda>r. \<not> bad r) [r])"
proof -
  obtain res ld' where run: "session_run run (CreateNodes t [r]) ld = (res, ld')"
    by (cases "session_run run (CreateNodes t [r]) ld")
  note f = session_run_fields[OF run]
  from f rejectsD[OF assms, of "CreateNodes t [r]" "store ld"] have b: "isl res = bad r" by simp
  show "inserted (trace (insert_single_node run t r ld))
           = inserted (trace ld) @ filter (\<lambda>r. \<not> bad r) [r]"
    using run f b by (cases res) (simp_all add: insert_single_node_def inserted_append inserted_one)
  show "total_inserted (insert_single_node run t r ld)
           = total_inserted ld + length (filter (\<lambda>r. \<not> bad r) [r])"
    using run f b by (cases res) (simp_all add: insert_single_node_def)
qed

lemma fold_single_nodes:
  assumes "rejects run bad"
  shows "inserted (trace (fold (insert_single_node run t) rs ld))
           = inserted (trace ld) @ filter (\<lambda>r. \<not> bad r) rs \<and>
         total_inserted (fold (insert_single_node run t) rs ld)
           = total_inserted ld + length (filter (\<lambda>r. \<not> bad r) rs)"
proof (induction rs arbitrary: ld)
  case Nil
  show ?case by simp
next
  case (Cons r rs)
  show ?case
    using Cons[of "insert_single_node run t r ld"] insert_single_node_inserted[OF assms, of t r ld]
    by (simp split: if_splits)
qed

lemma insert_node_batch_inserted:
  assumes "rejects run bad"
  shows "inserted (trace (insert_node_batch L run t batch ld))
           = inserted (trace ld) @ filter (\<lambda>r. \<not> bad r) (map (clean_items L) batch) \<and>
         total_inserted (insert_node_batch L run t batch ld)
           = total_inserted ld + length (filter (\<lambda>r. \<not> bad r) (map (clean_items L) batch))"
proof -
  let ?cb = "map (clean_items L) batch"
  obtain res ld' where run: "session_run run (CreateNodes t ?cb) ld = (res, ld')"
    by (cases "session_run run (CreateNodes t ?cb) ld")
  note f = session_run_fields[OF run]
  from f rejectsD[OF assms, of "CreateNodes t ?cb" "store ld"]
  have b: "isl res = list_ex bad ?cb" by simp
  show ?thesis
  proof (cases res)
    case (Inl e)
    with b have "list_ex bad ?cb" by simp
    from fold_single_nodes[OF assms, of t ?cb ld'] run Inl f show ?thesis
      by (simp add: insert_node_batch_def inserted_append inserted_one)
  next
    case (Inr c)
    with b have "\<not> list_ex bad ?cb" by simp
    then have "filter (\<lambda>r. \<not> bad r) ?cb = ?cb"
      by (auto simp: list_ex_iff filter_id_conv)
    with run Inr f show ?thesis
      by (simp add: insert_node_batch_def inserted_append inserted_one)
  qed
qed

lemma fold_node_batches:
  assumes "rejects run bad"
  shows "inserted (trace (fold (insert_node_batch L run t) bs ld))
           = inserted (trace ld) @ filter (\<lambda>r. \<not> bad r) (map (clean_items L) (concat bs)) \<and>
         total_inserted (fold (insert_node_batch L run t) bs ld)
           = total_inserted ld + length (filter (\<lambda>r. \<not> bad r) (map (clean_items L) (concat bs)))"
proof (induction bs arbitrary: ld)
  case Nil
  show ?case by simp
next
  case (Cons b bs)
  show ?case
    using Cons[of "insert_node_batch L run t b ld"] insert_node_batch_inserted[OF assms, of L t b ld]
    by simp
qed

lemma insert_node_type_inserted:
  assumes "rejects run bad" and "0 < batch_size"
  shows "inserted (trace (insert_node_type L run batch_size g t ld))
           = inserted (trace ld) @ filter (\<lambda>r. \<not> bad r) (map (clean_items L) (nodes_of_type g t)) \<and>
         total_inserted (insert_node_type L run batch_size g t ld)
           = total_inserted ld
             + length (filter (\<lambda>r. \<not> bad r) (map (clean_items L) (nodes_of_type g t)))"
  using fold_node_batches[OF assms(1), of L t "py_batches batch_size (nodes_of_type g t)" ld]
  by (simp add: insert_node_type_def concat_py_batches[OF assms(2)])

lemma fold_node_types:
  assumes "rejects run bad" and "0 < batch_size"
  shows "inserted (trace (fold (insert_node_type L run batch_size g) ts ld))
           = inserted (trace ld)
             @ filter (\<lambda>r. \<not> bad r) (map (clean_items L) (concat (map (nodes_of_type g) ts))) \<and>
         total_inserted (fold (insert_node_type L run batch_size g) ts ld)
           = total_inserted ld
             + length (filter (\<lambda>r. \<not> bad r)
                 (map (clean_items L) (concat (map (nodes_of_type g) ts))))"
proof (induction ts arbitrary: ld)
  case Nil
  show ?case by simp
next
  case (Cons t ts)
  show ?case
    using Cons[of "insert_node_type L run batch_size g t ld"]
      insert_node_type_inserted[OF assms, of L g t ld]
    by simp
qed

lemma submitted_one: "submitted [(stmt, res)] = records stmt"
  by (simp add: submitted_def)

lemma insert_single_edge_frame:
  "skipped_external (insert_single_edge run t r ld) = skipped_external ld \<and>
   submitted (trace (insert_single_edge run t r ld)) = submitted (trace ld) @ [r]"
proof -
  obtain res ld' where run: "session_run run (CreateRelationships t [r]) ld = (res, ld')"
    by (cases "session_run run (CreateRelationships t [r]) ld")
  note f = session_run_fields[OF run]
  show ?thesis using run f
    by (cases res) (simp_all add: insert_single_edge_def submitted_append submitted_one)
qed

lemma fold_single_edges_frame:
  "skipped_external (fold (insert_single_edge run t) rs ld) = skipped_external ld \<and>
   submitted (trace (fold (insert_single_edge run t) rs ld)) = submitted (trace ld) @ rs"
proof (induction rs arbitrary: ld)
  case Nil
  show ?case by simp
next
  case (Cons r rs)
  show ?case
    using Cons[of "insert_single_edge run t r ld"] insert_single_edge_frame[of run t r ld]
    by simp
qed

lemma insert_edge_batch_frame:
  "skipped_external (insert_edge_batch L run t batch ld) = skipped_external ld \<and>
   set (submitted (trace (insert_edge_batch L run t batch ld)))
     = set (submitted (trace ld)) \<union> normalize_edge L ` set batch"
proof -
  let ?nb = "map (normalize_edge L) batch"
  obtain res ld' where run: "session_run run (CreateRelationships t ?nb) ld = (res, ld')"
    by (cases "session_run run (CreateRelationships t ?nb) ld")
  note f = session_run_fields[OF run]
  show ?thesis
  proof (cases res)
    case (Inl e)
    with run f fold_single_edges_frame[of run t ?nb ld'] show ?thesis
      by (simp add: insert_edge_batch_def submitted_append submitted_one)
  next
    case (Inr c)
    with run f show ?thesis
      by (simp add: insert_edge_batch_def submitted_append submitted_one)
  qed
qed

lemma fold_edge_batches_frame:
  "skipped_external (fold (insert_edge_batch L run t) bs ld) = skipped_external ld \<and>
   set (submitted (trace (fold (insert_edge_batch L run t) bs ld)))
     = set (submitted (trace ld)) \<union> normalize_edge L ` set (concat bs)"
proof (induction bs arbitrary: ld)
  case Nil
  show ?case by simp
next
  case (Cons b bs)
  show ?case
    using Cons[of "insert_edge_batch L run t b ld"] insert_edge_batch_frame[of L run t b ld]
    by (simp add: image_Un Un_assoc)
qed

definition inferred_of :: "(string \<times> pydict) list \<Rightarrow> string \<Rightarrow> nat" where
  "inferred_of g t = length (edges_of_type g t) - length (filter is_direct (edges_of_type g t))"

lemma insert_edge_type_frame:
  "skipped_external (insert_edge_type L run batch_size g t ld) = skipped_external ld + inferred_of g t \<and>
   set (submitted (trace (insert_edge_type L run batch_size g t ld)))
     \<subseteq> set (submitted (trace ld)) \<union> normalize_edge L ` {e \<in> set (map snd g). is_direct e}"
proof -
  let ?direct = "filter is_direct (edges_of_type g t)"
  let ?ld1 = "ld\<lparr>skipped_external := skipped_external ld + inferred_of g t\<rparr>"
  have "set (concat (py_batches batch_size ?direct)) \<subseteq> set ?direct"
    using set_py_batches[of _ batch_size ?direct] by fastforce
  also have "\<dots> \<subseteq> {e \<in> set (map snd g). is_direct e}"
    by (auto simp: edges_of_type_def)
  finally have sub: "set (concat (py_batches batch_size ?direct)) \<subseteq> {e \<in> set (map snd g). is_direct e}" .
  from fold_edge_batches_frame[of L run t "py_batches batch_size ?direct" ?ld1] sub
  show ?thesis
    by (auto simp: insert_edge_type_def inferred_of_def Let_def)
qed

lemma fold_edge_types_frame:
  "skipped_external (fold (insert_edge_type L run batch_size g) ts ld)
     = skipped_external ld + sum_list (map (inferred_of g) ts) \<and>
   set (submitted (trace (fold (insert_edge_type L run batch_size g) ts ld)))
     \<subseteq> set (submitted (trace ld)) \<union> normalize_edge L ` {e \<in> set (map snd g). is_direct e}"
proof (induction ts arbitrary: ld)
  case Nil
  show ?case by simp
next
  case (Cons t ts)
  show ?case
    using Cons[of "insert_edge_type L run batch_size g t ld"]
      insert_edge_type_frame[of L run batch_size g t ld]
    by auto
qed

lemma inferred_of_count:
  "inferred_of g t = length (filter (\<lambda>(t', e). t' = t \<and> \<not> is_direct e) g)"
proof -
  have "length (edges_of_type g t) =
      length (filter is_direct (edges_of_type g t)) + length (filter (\<lambda>e. \<not> is_direct e) (edges_of_type g t))"
    by (rule sum_length_filter_compl[symmetric])
  moreover have "length (filter (\<lambda>e. \<not> is_direct e) (edges_of_type g t))
      = length (filter (\<lambda>(t', e). t' = t \<and> \<not> is_direct e) g)"
    by (induction g) (auto simp: edges_of_type_def)
  ultimately show ?thesis by (simp add: inferred_of_def)
qed

lemma sum_indicator_distinct:
  "distinct ks \<Longrightarrow> a \<in> set ks \<Longrightarrow> (\<Sum>k\<leftarrow>ks. if a = k then c else (0::nat)) = c"
  by (induction ks) auto

lemma sum_groups_count:
  "distinct ks \<Longrightarrow> fst ` set g \<subseteq> set ks \<Longrightarrow>
   (\<Sum>k\<leftarrow>ks. length (filter (\<lambda>(t', e). t' = k \<and> P e) g)) = length (filter (\<lambda>(t', e). P e) g)"
proof (induction g)
  case Nil
  show ?case by simp
next
  case (Cons x g)
  obtain t e where x: "x = (t, e)" by (cases x)
  from Cons.prems x have t: "t \<in> set ks" by auto
  have "(\<Sum>k\<leftarrow>ks. length (filter (\<lambda>(t', e). t' = k \<and> P e) (x # g)))
      = (\<Sum>k\<leftarrow>ks. (if t = k then (if P e then 1 else 0) else 0)
            + length (filter (\<lambda>(t', e). t' = k \<and> P e) g))"
    by (rule arg_cong[where f = sum_list], rule map_cong) (auto simp: x)
  also have "\<dots> = (\<Sum>k\<leftarrow>ks. if t = k then (if P e then 1 else 0) else 0)
      + (\<Sum>k\<leftarrow>ks. length (filter (\<lambda>(t', e). t' = k \<and> P e) g))"
    by (simp add: sum_list_addf)
  also have "\<dots> = (if P e then 1 else 0) + length (filter (\<lambda>(t', e). P e) g)"
    using Cons sum_indicator_distinct[OF Cons.prems(1) t] by simp
  finally show ?case by (simp add: x)
qed

lemma group_edges_snd: "group_edges edges = Inr g \<Longrightarrow> map snd g = edges"
  by (induction edges arbitrary: g) (auto split: sum.splits)

lemma skipped_total:
  "group_edges edges = Inr g \<Longrightarrow>
   sum_list (map (inferred_of g) (sort (remdups (map fst g)))) = length (filter (\<lambda>e. \<not> is_direct e) edges)"
proof -
  assume ge: "group_edges edges = Inr g"
  have "sum_list (map (inferred_of g) (sort (remdups (map fst g))))
      = (\<Sum>k\<leftarrow>sort (remdups (map fst g)). length (filter (\<lambda>(t', e). t' = k \<and> \<not> is_direct e) g))"
    by (rule arg_cong[where f = sum_list], rule map_cong) (simp_all add: inferred_of_count)
  also have "\<dots> = length (filter (\<lambda>(t', e). \<not> is_direct e) g)"
    by (rule sum_groups_count) auto
  also have "\<dots> = length (filter (\<lambda>e. \<not> is_direct e) (map snd g))"
    by (induction g) auto
  finally show ?thesis using group_edges_snd[OF ge] by simp
qed

lemma insert_single_edge_inserted:
  assumes "rejects run bad"
  shows "inserted (trace (insert_single_edge run t r ld))
           = inserted (trace ld) @ filter (\<lambda>r. \<not> bad r) [r]"
proof -
  obtain res ld' where run: "session_run run (CreateRelationships t [r]) ld = (res, ld')"
    by (cases "session_run run (CreateRelationships t [r]) ld")
  note f = session_run_fields[OF run]
  from f rejectsD[OF assms, of "CreateRelationships t [r]" "store ld"] have b: "isl res = bad r"
    by simp
  show ?thesis
    using run f b by (cases res) (simp_all add: insert_single_edge_def inserted_append inserted_one)
qed

lemma fold_single_edges:
  assumes "rejects run bad"
  shows "inserted (trace (fold (insert_single_edge run t) rs ld))
           = inserted (trace ld) @ filter (\<lambda>r. \<not> bad r) rs"
proof (induction rs arbitrary: ld)
  case Nil
  show ?case by simp
next
  case (Cons r rs)
  show ?case
    using Cons[of "insert_single_edge run t r ld"] insert_single_edge_inserted[OF assms, of t r ld]
    by (simp split: if_splits)
qed

lemma insert_edge_batch_inserted:
  assumes "rejects run bad"
  shows "inserted (trace (insert_edge_batch L run t batch ld))
           = inserted (trace ld) @ filter (\<lambda>r. \<not> bad r) (map (normalize_edge L) batch)"
proof -
  let ?nb = "map (normalize_edge L) batch"
  obtain res ld' where run: "session_run run (CreateRelationships t ?nb) ld = (res, ld')"
    by (cases "session_run run (CreateRelationships t ?nb) ld")
  note f = session_run_fields[OF run]
  from f rejectsD[OF assms, of "CreateRelationships t ?nb" "store ld"]
  have b: "isl res = list_ex bad ?nb" by simp
  show ?thesis
  proof (cases res)
    case (Inl e)
    from fold_single_edges[OF assms, of t ?nb ld'] run Inl f show ?thesis
      by (simp add: insert_edge_batch_def inserted_append inserted_one)
  next
    case (Inr c)
    with b have "\<not> list_ex bad ?nb" by simp
    then have "filter (\<lambda>r. \<not> bad r) ?nb = ?nb"
      by (auto simp: list_ex_iff filter_id_conv)
    with run Inr f show ?thesis
      by (simp add: insert_edge_batch_def inserted_append inserted_one)
  qed
qed

lemma fold_edge_batches:
  assumes "rejects run bad"
  shows "inserted (trace (fold (insert_edge_batch L run t) bs ld))
           = inserted (trace ld) @ filter (\<lambda>r. \<not> bad r) (map (normalize_edge L) (concat bs))"
proof (induction bs arbitrary: ld)
  case Nil
  show ?case by simp
next
  case (Cons b bs)
  show ?case
    using Cons[of "insert_edge_batch L run t b ld"] insert_edge_batch_inserted[OF assms, of L t b ld]
    by simp
qed

definition direct_of :: "(string \<times> pydict) list \<Rightarrow> string \<Rightarrow> pydict list" where
  "direct_of g t = filter is_direct (edges_of_type g t)"

lemma insert_edge_type_inserted:
  assumes "rejects run bad" and "0 < batch_size"
  shows "inserted (trace (insert_edge_type L run batch_size g t ld))
           = inserted (trace ld) @ filter (\<lambda>r. \<not> bad r) (map (normalize_edge L) (direct_of g t))"
  using fold_edge_batches[OF assms(1), of L t "py_batches batch_size (direct_of g t)"
      "ld\<lparr>skipped_external := skipped_external ld + inferred_of g t\<rparr>"]
  by (simp add: insert_edge_type_def concat_py_batches[OF assms(2)] direct_of_def inferred_of_def Let_def)

lemma fold_edge_types:
  assumes "rejects run bad" and "0 < batch_size"
  shows "inserted (trace (fold (insert_edge_type L run batch_size g) ts ld))
           = inserted (trace ld)
             @ filter (\<lambda>r. \<not> bad r) (map (normalize_edge L) (concat (map (direct_of g) ts)))"
proof (induction ts arbitrary: ld)
  case Nil
  show ?case by simp
next
  case (Cons t ts)
  show ?case
    using Cons[of "insert_edge_type L run batch_size g t ld"]
      insert_edge_type_inserted[OF assms, of L g t ld]
    by simp
qed

subsection \<open>The retry after a failed batch\<close>

lemma fold_single_nodes_trace:
  "map fst (trace (fold (insert_single_node run t) rs ld))
     = map fst (trace ld) @ map (\<lambda>r. CreateNodes t [r]) rs"
proof (induction rs arbitrary: ld)
  case Nil
  show ?case by simp
next
  case (Cons r rs)
  obtain res ld' where run: "session_run run (CreateNodes t [r]) ld = (res, ld')"
    by (cases "session_run run (CreateNodes t [r]) ld")
  note f = session_run_fields[OF run]
  have "map fst (trace (insert_single_node run t r ld)) = map fst (trace ld) @ [CreateNodes t [r]]"
    using run f by (cases res) (simp_all add: insert_single_node_def)
  with Cons[of "insert_single_node run t r ld"] show ?case by simp
qed

lemma insert_node_batch_retry:
  assumes "fst (run (CreateNodes t (map (clean_items L) batch)) (store ld)) = Inl e"
  shows "map fst (trace (insert_node_batch L run t batch ld))
     = map fst (trace ld) @ CreateNodes t (map (clean_items L) batch)
         # map (\<lambda>r. CreateNodes t [r]) (map (clean_items L) batch)"
proof -
  let ?cb = "map (clean_items L) batch"
  obtain res ld' where run: "session_run run (CreateNodes t ?cb) ld = (res, ld')"
    by (cases "session_run run (CreateNodes t ?cb) ld")
  note f = session_run_fields[OF run]
  with assms have "res = Inl e" by simp
  with run f fold_single_nodes_trace[of run t ?cb ld'] show ?thesis
    by (simp add: insert_node_batch_def)
qed

lemma fold_single_edges_trace:
  "map fst (trace (fold (insert_single_edge run t) rs ld))
     = map fst (trace ld) @ map (\<lambda>r. CreateRelationships t [r]) rs"
proof (induction rs arbitrary: ld)
  case Nil
  show ?case by simp
next
  case (Cons r rs)
  obtain res ld' where run: "session_run run (CreateRelationships t [r]) ld = (res, ld')"
    by (cases "session_run run (CreateRelationships t [r]) ld")
  note f = session_run_fields[OF run]
  have "map fst (trace (insert_single_edge run t r ld))
      = map fst (trace ld) @ [CreateRelationships t [r]]"
    using run f by (cases res) (simp_all add: insert_single_edge_def)
  with Cons[of "insert_single_edge run t r ld"] show ?case by simp
qed

lemma insert_edge_batch_retry:
  assumes "fst (run (CreateRelationships t (map (normalize_edge L) batch)) (store ld)) = Inl e"
  shows "map fst (trace (insert_edge_batch L run t batch ld))
     = map fst (trace ld) @ CreateRelationships t (map (normalize_edge L) batch)
         # map (\<lambda>r. CreateRelationships t [r]) (map (normalize_edge L) batch)"
proof -
  let ?nb = "map (normalize_edge L) batch"
  obtain res ld' where run: "session_run run (CreateRelationships t ?nb) ld = (res, ld')"
    by (cases "session_run run (CreateRelationships t ?nb) ld")
  note f = session_run_fields[OF run]
  with assms have "res = Inl e" by simp
  with run f fold_single_edges_trace[of run t ?nb ld'] show ?thesis
    by (simp add: insert_edge_batch_def)
qed

definition has_string_type :: "pydict \<Rightarrow> bool" where
  "has_string_type d = (case map_of d ''type'' of Some (PStr t) \<Rightarrow> True | _ \<Rightarrow> False)"

lemma group_edges_total: "list_all has_string_type edges \<Longrightarrow> \<exists>g. group_edges edges = Inr g"
proof (induction edges)
  case Nil
  show ?case by simp
next
  case (Cons e edges)
  then obtain g where "group_edges edges = Inr g" by auto
  moreover from Cons.prems obtain t where "edge_type e = Inr t"
    by (auto simp: has_string_type_def edge_type_def split: option.splits pyval.splits)
  ultimately show ?case by simp
qed

lemma group_nodes_total: "list_all has_string_type nodes \<Longrightarrow> \<exists>g. group_nodes nodes = Inr g"
proof (induction nodes)
  case Nil
  show ?case by simp
next
  case (Cons n nodes)
  then obtain g where "group_nodes nodes = Inr g" by auto
  moreover from Cons.prems obtain tn where "pop_type n = Inr tn"
    by (auto simp: has_string_type_def pop_type_def is_container_def split: option.splits pyval.splits)
  ultimately show ?case by simp
qed

lemma is_direct_normalize: "has_key ''to'' (normalize_edge L e) = is_direct e"
  by (cases "map_of e ''from_id''"; cases "map_of e ''from''"; cases "map_of e ''to_id''";
      cases "map_of e ''to''")
     (simp_all add: has_key_def normalize_edge_def endpoint_def is_direct_def)

definition accept_unless :: "(pydict \<Rightarrow> bool) \<Rightarrow> unit session" where
  "accept_unless bad stmt st =
     (if list_ex bad (records stmt) then (Inl ValueError, st) else (Inr (length (records stmt)), st))"

definition no_id :: "pydict \<Rightarrow> bool" where
  "no_id d = (map_of d ''id'' = None \<and> map_of d ''from'' = None)"

definition two_edges :: "pydict list" where
  "two_edges =
     [[(''type'', PStr ''CALLS''), (''from_id'', PStr ''f''), (''to_name'', PStr ''print'')],
      [(''type'', PStr ''DEFINES''), (''from_id'', PStr ''m''), (''to_id'', PStr ''f'')]]"

definition two_nodes :: "pydict list" where
  "two_nodes =
     [[(''id'', PStr ''m''), (''type'', PStr ''File'')],
      [(''type'', PStr ''File''), (''name'', PStr ''x'')]]"

definition two_nodes_grouped :: "(pyval \<times> pydict) list" where
  "two_nodes_grouped = [(PStr ''File'', [(''id'', PStr ''m'')]), (PStr ''File'', [(''name'', PStr ''x'')])]"

definition two_edges_grouped :: "(string \<times> pydict) list" where
  "two_edges_grouped = [(''CALLS'', two_edges ! 0), (''DEFINES'', two_edges ! 1)]"

text \<open>
  Claim C5. For every list of edge records (each with its string \<^verbatim>\<open>type\<close>) and every batch
  size other than 0, whatever the store answers, the load of the edges returns; the
  number of skipped external references it reports is the number of edges with neither
  \<^verbatim>\<open>to_id\<close> nor \<^verbatim>\<open>to\<close>; every record sent to the store is the normalised form of an edge
  that has a destination, and no edge without one is sent.
\<close>

theorem batch_insert_edges_skips_external:
  assumes "list_all has_string_type edges" and "batch_size \<noteq> 0"
  shows "\<exists>r. batch_insert_edges L run batch_size edges st = Inr r \<and>
           skipped_external r = length (filter (\<lambda>e. \<not> is_direct e) edges) \<and>
           list_all (\<lambda>rec. list_ex (\<lambda>e. is_direct e \<and> rec = normalize_edge L e) edges)
             (submitted (trace r)) \<and>
           list_all (\<lambda>e. is_direct e \<or> normalize_edge L e \<notin> set (submitted (trace r))) edges"
proof -
  from group_edges_total[OF assms(1)] obtain g where g: "group_edges edges = Inr g" ..
  let ?r = "fold (insert_edge_type L run batch_size g) (sort (remdups (map fst g))) (new_loader st)"
  have r: "batch_insert_edges L run batch_size edges st = Inr ?r"
    using g assms(2) by (simp add: batch_insert_edges_def)
  note fr = fold_edge_types_frame[of L run batch_size g "sort (remdups (map fst g))" "new_loader st"]
  have sk: "skipped_external ?r = length (filter (\<lambda>e. \<not> is_direct e) edges)"
    using fr skipped_total[OF g] by (simp add: new_loader_def)
  have sub: "set (submitted (trace ?r)) \<subseteq> normalize_edge L ` {e \<in> set edges. is_direct e}"
    using fr group_edges_snd[OF g] by (simp add: new_loader_def submitted_def)
  have a: "list_all (\<lambda>rec. list_ex (\<lambda>e. is_direct e \<and> rec = normalize_edge L e) edges)
             (submitted (trace ?r))"
    using sub by (auto simp: list_all_iff list_ex_iff)
  have b: "list_all (\<lambda>e. is_direct e \<or> normalize_edge L e \<notin> set (submitted (trace ?r))) edges"
    unfolding list_all_iff
  proof (intro ballI)
    fix e assume "e \<in> set edges"
    show "is_direct e \<or> normalize_edge L e \<notin> set (submitted (trace ?r))"
    proof (cases "normalize_edge L e \<in> set (submitted (trace ?r))")
      case True
      with sub obtain e' where "is_direct e'" and "normalize_edge L e = normalize_edge L e'"
        by auto
      with is_direct_normalize[of L e] is_direct_normalize[of L e'] show ?thesis by simp
    next
      case False
      then show ?thesis by simp
    qed
  qed
  from r sk a b show ?thesis by blast
qed

theorem batch_insert_edges_skips_external_witness:
  "list_all has_string_type two_edges \<and> (1000::int) \<noteq> 0 \<and>
   (\<exists>r. batch_insert_edges hex_identity (accept_unless no_id) 1000 two_edges () = Inr r \<and>
        skipped_external r = 1)"
proof -
  have h: "list_all has_string_type two_edges"
    by (simp add: two_edges_def has_string_type_def)
  have n: "length (filter (\<lambda>e. \<not> is_direct e) two_edges) = 1"
    by (simp add: two_edges_def is_direct_def has_key_def)
  from batch_insert_edges_skips_external[OF h, of 1000 hex_identity "accept_unless no_id" "()"] n h
  show ?thesis by auto
qed

text \<open>
  Isolation of the records the store rejects. Let the store reject a statement exactly
  when its batch holds a record it rejects alone. Then, for a positive batch size and
  records that each carry a \<^verbatim>\<open>type\<close>, both loads return; the records inserted are exactly
  the records the store does not reject, in submission order, of every batch of every
  type, and the node count is their number. A batch whose statement fails is followed by
  one statement per record of that batch, holding that record alone.
\<close>

lemma batch_insert_isolates_failures:
  assumes "rejects run bad" and "0 < batch_size"
    and "group_nodes nodes = Inr gn" and "group_edges edges = Inr ge"
  shows "(\<exists>r. batch_insert_nodes L run batch_size nodes st = Inr r \<and>
            inserted (trace r) = filter (\<lambda>r. \<not> bad r)
               (map (clean_items L) (concat (map (nodes_of_type gn) type_order))) \<and>
            total_inserted r = length (inserted (trace r))) \<and>
         (\<exists>r. batch_insert_edges L run batch_size edges st = Inr r \<and>
            inserted (trace r) = filter (\<lambda>r. \<not> bad r)
               (map (normalize_edge L)
                  (concat (map (direct_of ge) (sort (remdups (map fst ge))))))) \<and>
         (list_ex bad (map (clean_items L) batch) \<longrightarrow>
            map fst (trace (insert_node_batch L run t batch ld))
              = map fst (trace ld) @ CreateNodes t (map (clean_items L) batch)
                  # map (\<lambda>r. CreateNodes t [r]) (map (clean_items L) batch)) \<and>
         (list_ex bad (map (normalize_edge L) batch) \<longrightarrow>
            map fst (trace (insert_edge_batch L run t batch ld))
              = map fst (trace ld) @ CreateRelationships t (map (normalize_edge L) batch)
                  # map (\<lambda>r. CreateRelationships t [r]) (map (normalize_edge L) batch))"
proof (intro conjI impI)
  let ?r = "fold (insert_node_type L run batch_size gn) type_order (new_loader st)"
  have "batch_insert_nodes L run batch_size nodes st = Inr ?r"
    using assms by (simp add: batch_insert_nodes_def)
  moreover note fold_node_types[OF assms(1,2), of L gn type_order "new_loader st"]
  ultimately show "\<exists>r. batch_insert_nodes L run batch_size nodes st = Inr r \<and>
            inserted (trace r) = filter (\<lambda>r. \<not> bad r)
               (map (clean_items L) (concat (map (nodes_of_type gn) type_order))) \<and>
            total_inserted r = length (inserted (trace r))"
    by (simp add: new_loader_def inserted_def submitted_def)
next
  let ?r = "fold (insert_edge_type L run batch_size ge) (sort (remdups (map fst ge))) (new_loader st)"
  have "batch_insert_edges L run batch_size edges st = Inr ?r"
    using assms by (simp add: batch_insert_edges_def)
  moreover note fold_edge_types[OF assms(1,2), of L ge "sort (remdups (map fst ge))" "new_loader st"]
  ultimately show "\<exists>r. batch_insert_edges L run batch_size edges st = Inr r \<and>
            inserted (trace r) = filter (\<lambda>r. \<not> bad r)
               (map (normalize_edge L)
                  (concat (map (direct_of ge) (sort (remdups (map fst ge))))))"
    by (simp add: new_loader_def inserted_def submitted_def)
next
  assume "list_ex bad (map (clean_items L) batch)"
  with rejectsD[OF assms(1), of "CreateNodes t (map (clean_items L) batch)" "store ld"]
  obtain e where "fst (run (CreateNodes t (map (clean_items L) batch)) (store ld)) = Inl e"
    by (cases "fst (run (CreateNodes t (map (clean_items L) batch)) (store ld))") auto
  then show "map fst (trace (insert_node_batch L run t batch ld))
              = map fst (trace ld) @ CreateNodes t (map (clean_items L) batch)
                  # map (\<lambda>r. CreateNodes t [r]) (map (clean_items L) batch)"
    by (rule insert_node_batch_retry)
next
  assume "list_ex bad (map (normalize_edge L) batch)"
  with rejectsD[OF assms(1), of "CreateRelationships t (map (normalize_edge L) batch)" "store ld"]
  obtain e where "fst (run (CreateRelationships t (map (normalize_edge L) batch)) (store ld)) = Inl e"
    by (cases "fst (run (CreateRelationships t (map (normalize_edge L) batch)) (store ld))") auto
  then show "map fst (trace (insert_edge_batch L run t batch ld))
              = map fst (trace ld) @ CreateRelationships t (map (normalize_edge L) batch)
                  # map (\<lambda>r. CreateRelationships t [r]) (map (normalize_edge L) batch)"
    by (rule insert_edge_batch_retry)
qed


lemma rejects_accept_unless: "rejects (accept_unless bad) bad"
  by (simp add: rejects_def accept_unless_def)

lemma batch_insert_isolates_failures_example:
  "rejects (accept_unless no_id) no_id \<and> (0::int) < 2 \<and>
   group_nodes two_nodes = Inr two_nodes_grouped \<and>
   group_edges two_edges = Inr two_edges_grouped \<and>
   list_ex no_id (map (clean_items hex_identity) (map snd two_nodes_grouped)) \<and>
   (\<exists>r. batch_insert_nodes hex_identity (accept_unless no_id) 2 two_nodes () = Inr r \<and>
        inserted (trace r) = [[(''id'', PStr ''m'')]] \<and> total_inserted r = 1) \<and>
   map fst (trace (insert_node_batch hex_identity (accept_unless no_id) ''File''
       (map snd two_nodes_grouped) (new_loader ())))
     = [CreateNodes ''File'' [[(''id'', PStr ''m'')], [(''name'', PStr ''x'')]],
        CreateNodes ''File'' [[(''id'', PStr ''m'')]],
        CreateNodes ''File'' [[(''name'', PStr ''x'')]]]"
proof -
  have gn: "group_nodes two_nodes = Inr two_nodes_grouped"
    by (simp add: two_nodes_def two_nodes_grouped_def pop_type_def is_container_def)
  have ge: "group_edges two_edges = Inr two_edges_grouped"
    by (simp add: two_edges_def two_edges_grouped_def edge_type_def)
  have bad: "list_ex no_id (map (clean_items hex_identity) (map snd two_nodes_grouped))"
    by (simp add: two_nodes_grouped_def clean_items_def clean_value_def is_container_def no_id_def)
  have known: "filter (\<lambda>r. \<not> no_id r)
      (map (clean_items hex_identity) (concat (map (nodes_of_type two_nodes_grouped) type_order)))
      = [[(''id'', PStr ''m'')]]"
    by (simp add: two_nodes_grouped_def nodes_of_type_def type_order_def clean_items_def
        clean_value_def is_container_def no_id_def)
  have cl: "map (clean_items hex_identity) (map snd two_nodes_grouped)
      = [[(''id'', PStr ''m'')], [(''name'', PStr ''x'')]]"
    by (simp add: two_nodes_grouped_def clean_items_def clean_value_def is_container_def)
  note T = batch_insert_isolates_failures[OF rejects_accept_unless zero_less_numeral gn ge,
      where L = hex_identity and st = "()" and t = "''File''"
        and batch = "map snd two_nodes_grouped" and ld = "new_loader ()" and bad = no_id]
  from T have "\<exists>r. batch_insert_nodes hex_identity (accept_unless no_id) 2 two_nodes () = Inr r \<and>
      inserted (trace r) = filter (\<lambda>r. \<not> no_id r)
        (map (clean_items hex_identity) (concat (map (nodes_of_type two_nodes_grouped) type_order))) \<and>
      total_inserted r = length (inserted (trace r))"
    by (rule conjunct1)
  then have A: "\<exists>r. batch_insert_nodes hex_identity (accept_unless no_id) 2 two_nodes () = Inr r \<and>
      inserted (trace r) = [[(''id'', PStr ''m'')]] \<and> total_inserted r = 1"
    unfolding known by auto
  from T have "list_ex no_id (map (clean_items hex_identity) (map snd two_nodes_grouped)) \<longrightarrow>
      map fst (trace (insert_node_batch hex_identity (accept_unless no_id) ''File''
         (map snd two_nodes_grouped) (new_loader ())))
      = map fst (trace (new_loader ())) @ CreateNodes ''File''
          (map (clean_items hex_identity) (map snd two_nodes_grouped))
          # map (\<lambda>r. CreateNodes ''File'' [r])
              (map (clean_items hex_identity) (map snd two_nodes_grouped))"
    by (rule conjunct1[OF conjunct2[OF conjunct2]])
  with bad have C: "map fst (trace (insert_node_batch hex_identity (accept_unless no_id) ''File''
       (map snd two_nodes_grouped) (new_loader ())))
     = [CreateNodes ''File'' [[(''id'', PStr ''m'')], [(''name'', PStr ''x'')]],
        CreateNodes ''File'' [[(''id'', PStr ''m'')]],
        CreateNodes ''File'' [[(''name'', PStr ''x'')]]]"
    unfolding cl by (simp add: new_loader_def)
  from rejects_accept_unless[of no_id] gn ge bad A C show ?thesis by simp
qed

subsection \<open>A record without a type\<close>

definition typeless_nodes :: "pydict list" where
  "typeless_nodes =
     [[(''id'', PStr ''a''), (''type'', PStr ''File''), (''name'', PStr ''a.py'')],
      [(''id'', PStr ''b''), (''name'', PStr ''b.py'')]]"

definition typeless_edges :: "pydict list" where
  "typeless_edges =
     [[(''type'', PStr ''DEFINES''), (''from_id'', PStr ''a''), (''to_id'', PStr ''b'')],
      [(''from_id'', PStr ''a''), (''to_id'', PStr ''b'')]]"

text \<open>
  Claim C6. A single malformed record never aborts the overall load: a failed batch is
  retried record by record and the other records are still inserted. The retry covers
  the statements sent to the store only. The grouping loops read \<^verbatim>\<open>node_copy.pop('type')\<close>
  and \<^verbatim>\<open>edge['type']\<close> outside every \<^verbatim>\<open>try\<close>: for every store, every batch size and every
  store state, one record without a \<^verbatim>\<open>type\<close> ends the load of the nodes, and of the edges,
  with \<^verbatim>\<open>KeyError\<close> before any statement is sent, so the well-formed record beside it is
  not inserted either.
\<close>

theorem typeless_record_aborts_load:
  "batch_insert_nodes L run batch_size typeless_nodes st = Inl KeyError \<and>
   batch_insert_edges L run batch_size typeless_edges st = Inl KeyError"
  by (simp add: batch_insert_nodes_def batch_insert_edges_def typeless_nodes_def typeless_edges_def
      pop_type_def edge_type_def is_container_def)

section \<open>The tree extractor\<close>

subsection \<open>String helpers\<close>

text \<open>
  Strings are lists of 8-bit characters: the model reads a Python \<^verbatim>\<open>str\<close> as its UTF-8
  bytes, and the letter tests below know the ASCII letters only.
\<close>

function str_nat :: "nat \<Rightarrow> string" where
  "str_nat n = (if n < 10 then [''0123456789'' ! n] else str_nat (n div 10) @ [''0123456789'' ! (n mod 10)])"
  by pat_completeness auto
termination
  by (relation "measure id") auto

declare str_nat.simps [simp del]

definition str_int :: "int \<Rightarrow> string" where
  "str_int i = (if i < 0 then CHR ''-'' # str_nat (nat (- i)) else str_nat (nat i))"

definition first_part_of :: "string \<Rightarrow> string" where
  "first_part_of s = takeWhile (\<lambda>c. c \<noteq> CHR ''.'') s"

function replace :: "string \<Rightarrow> string \<Rightarrow> string \<Rightarrow> string" where
  "replace old new s =
     (if s = [] \<or> old = [] then s
      else if startswith s old then new @ replace old new (drop (length old) s)
      else hd s # replace old new (tl s))"
  by pat_completeness auto
termination
  by (relation "measure (\<lambda>(old, new, s). length s)") auto

declare replace.simps [simp del]

definition isupper :: "string \<Rightarrow> bool" where
  "isupper s = (list_ex (\<lambda>c. c \<in> set ''ABCDEFGHIJKLMNOPQRSTUVWXYZ'') s \<and>
                \<not> list_ex (\<lambda>c. c \<in> set ''abcdefghijklmnopqrstuvwxyz'') s)"

definition nonempty :: "string option \<Rightarrow> bool" where
  "nonempty x = (case x of None \<Rightarrow> False | Some s \<Rightarrow> s \<noteq> [])"

definition opt_str :: "string option \<Rightarrow> pyval" where
  "opt_str x = (case x of None \<Rightarrow> PNone | Some s \<Rightarrow> PStr s)"

definition opt_nat :: "nat option \<Rightarrow> pyval" where
  "opt_nat x = (case x of None \<Rightarrow> PNone | Some n \<Rightarrow> PInt (int n))"

definition sdict :: "pydict \<Rightarrow> pyval" where
  "sdict d = PDict (map (\<lambda>(k, v). (PStr k, v)) d)"

definition path_suffix :: "path \<Rightarrow> string" where
  "path_suffix p =
     (let name = path_name p;
          stem = rev (drop 1 (dropWhile (\<lambda>c. c \<noteq> CHR ''.'') (rev name)));
          ext = drop (length stem) name
      in if CHR ''.'' \<in> set name \<and> stem \<noteq> [] \<and> length ext > 1 then ext else [])"

definition py_str :: "pyconst \<Rightarrow> string" where
  "py_str c = (case c of CNone \<Rightarrow> ''None'' | CBool b \<Rightarrow> (if b then ''True'' else ''False'')
               | CInt i \<Rightarrow> str_int i | CStr s \<Rightarrow> s | COther tn text \<Rightarrow> text)"

definition py_type_name :: "pyconst \<Rightarrow> string" where
  "py_type_name c = (case c of CNone \<Rightarrow> ''NoneType'' | CBool b \<Rightarrow> ''bool'' | CInt i \<Rightarrow> ''int''
                     | CStr s \<Rightarrow> ''str'' | COther tn text \<Rightarrow> tn)"

text \<open>\<^verbatim>\<open>node.lineno\<close>: a module and the boolean operators have no such attribute.\<close>

fun lineno :: "ast \<Rightarrow> nat option" where
  "lineno (Module body) = None"
| "lineno And = None"
| "lineno Or = None"
| "lineno (FunctionDef is_async name a body decorator_list returns l e) = Some l"
| "lineno (ClassDef name bases keywords body decorator_list l e) = Some l"
| "lineno (Return v l) = Some l"
| "lineno (Assign targets v l) = Some l"
| "lineno (For target iter body orelse l) = Some l"
| "lineno (While test body orelse l) = Some l"
| "lineno (PyIf test body orelse l) = Some l"
| "lineno (With items body l) = Some l"
| "lineno (Raise exc cause l) = Some l"
| "lineno (Try body handlers orelse finalbody l) = Some l"
| "lineno (ExceptHandler t body l) = Some l"
| "lineno (Assert test msg l) = Some l"
| "lineno (Import names l) = Some l"
| "lineno (ImportFrom m names level l) = Some l"
| "lineno (BoolOp op vals l) = Some l"
| "lineno (IfExp test b orelse l) = Some l"
| "lineno (Call func as keywords l) = Some l"
| "lineno (Constant c l) = Some l"
| "lineno (Attribute v attr l) = Some l"
| "lineno (Name ident l) = Some l"
| "lineno (Other cls children l) = Some l"

subsection \<open>The visitor's state\<close>

text \<open>
  The fields of \<^verbatim>\<open>ComprehensiveExtractor\<close>. \<open>raised\<close> holds the exception that ended the
  traversal, if any: the records appended before it stay in \<open>nodes\<close> and \<open>edges\<close>, and no
  later step of the traversal runs.
\<close>

record extractor =
  repo_root :: path
  file_path :: path
  src :: string
  nodes :: "pydict list"
  edges :: "pydict list"
  current_scope_stack :: "string list"
  current_function :: "string option"
  current_class :: "string option"
  imports_map :: "string \<rightharpoonup> string"
  defined_names :: "string \<rightharpoonup> string"
  scope_vars :: "string \<Rightarrow> string set"
  stats :: "(string \<times> nat) list"
  file_id :: string
  raised :: "exn option"

definition new_extractor :: "pylib \<Rightarrow> path \<Rightarrow> path \<Rightarrow> string \<Rightarrow> extractor" where
  "new_extractor L root fp text =
     \<lparr>repo_root = root, file_path = fp, src = text, nodes = [], edges = [],
      current_scope_stack = [], current_function = None, current_class = None,
      imports_map = Map.empty, defined_names = Map.empty, scope_vars = (\<lambda>scope. {}),
      stats = [(''functions'', 0), (''classes'', 0), (''methods'', 0), (''imports'', 0),
               (''calls'', 0), (''variables'', 0), (''decorators'', 0)],
      file_id = stable_id L [str_path fp], raised = None\<rparr>"

definition bump :: "string \<Rightarrow> (string \<times> nat) list \<Rightarrow> (string \<times> nat) list" where
  "bump key st = map (\<lambda>(k, v). if k = key then (k, v + 1) else (k, v)) st"

definition get_current_scope :: "extractor \<Rightarrow> string" where
  "get_current_scope st =
     (if current_scope_stack st \<noteq> [] then last (current_scope_stack st) else file_id st)"

definition record_file_node :: "pylib \<Rightarrow> extractor \<Rightarrow> exn + extractor" where
  "record_file_node L st =
     (case relative_to (file_path st) (repo_root st) of
        Inl e \<Rightarrow> Inl e
      | Inr rel \<Rightarrow>
          (let relpath = str_path rel;
               module_name = replace ''.py'' [] (replace [CHR 0x5C] ''.'' (replace ''/'' ''.'' relpath));
               lines = splitlines L (src st);
               node = [(''id'', PStr (file_id st)), (''type'', PStr ''File''),
                       (''name'', PStr (path_name (file_path st))),
                       (''path'', PStr (str_path (file_path st))),
                       (''relpath'', PStr relpath), (''module'', PStr module_name),
                       (''extension'', PStr (path_suffix (file_path st))),
                       (''sha1'', PStr (sha1_hex L (src st))),
                       (''lines_of_code'', PInt (int (length lines))),
                       (''size_bytes'', PInt (int (length (src st)))),
                       (''language'', PStr ''python''), (''encoding'', PStr ''utf-8'')]
           in Inr (st\<lparr>nodes := nodes st @ [node],
                       current_scope_stack := current_scope_stack st @ [file_id st]\<rparr>)))"

definition is_stdlib :: "string \<Rightarrow> bool" where
  "is_stdlib module_name =
     (first_part_of module_name \<in> set
        [''abc'', ''argparse'', ''ast'', ''asyncio'', ''collections'', ''copy'',
         ''dataclasses'', ''datetime'', ''enum'', ''functools'', ''hashlib'',
         ''itertools'', ''json'', ''logging'', ''math'', ''os'', ''pathlib'',
         ''pickle'', ''re'', ''sys'', ''time'', ''typing'', ''unittest''])"

definition safe_unparse :: "pylib \<Rightarrow> ast \<Rightarrow> string option" where
  "safe_unparse L node = map_option (take 200) (unparse L node)"

fun attr_parts :: "ast \<Rightarrow> string list" where
  "attr_parts (Attribute v attr l) = attr # attr_parts v"
| "attr_parts (Name ident l) = [ident]"
| "attr_parts _ = []"

definition get_full_name :: "ast \<Rightarrow> string" where
  "get_full_name node = join ''.'' (rev (attr_parts node))"

subsection \<open>Imports\<close>

definition or_name :: "string option \<Rightarrow> string \<Rightarrow> string" where
  "or_name a name = (if nonempty a then the a else name)"

definition import_alias :: "pylib \<Rightarrow> nat \<Rightarrow> pyalias \<Rightarrow> extractor \<Rightarrow> extractor" where
  "import_alias L l a st =
     (let target = alias_name a;
          import_id = stable_id L [file_id st, ''import'', target, str_nat l]
      in st\<lparr>imports_map := (imports_map st)(or_name (asname a) (alias_name a) \<mapsto> target),
             nodes := nodes st @
               [[(''id'', PStr import_id), (''type'', PStr ''Import''), (''name'', PStr target),
                 (''alias'', opt_str (asname a)), (''import_type'', PStr ''direct''),
                 (''lineno'', PInt (int l)), (''is_stdlib'', PBool (is_stdlib target)),
                 (''is_relative'', PBool False), (''level'', PInt 0)]],
             edges := edges st @
               [[(''type'', PStr ''IMPORTS''), (''from_id'', PStr (file_id st)),
                 (''to_id'', PStr import_id), (''lineno'', PInt (int l))]],
             stats := bump ''imports'' (stats st)\<rparr>)"

definition import_from_alias ::
  "pylib \<Rightarrow> string \<Rightarrow> nat \<Rightarrow> nat \<Rightarrow> pyalias \<Rightarrow> extractor \<Rightarrow> extractor" where
  "import_from_alias L module level l a st =
     (let target = (if module \<noteq> [] then module @ ''.'' @ alias_name a else alias_name a);
          import_id = stable_id L [file_id st, ''import'', target, str_nat l]
      in st\<lparr>imports_map := (imports_map st)(or_name (asname a) (alias_name a) \<mapsto> target),
             nodes := nodes st @
               [[(''id'', PStr import_id), (''type'', PStr ''Import''),
                 (''name'', PStr (alias_name a)), (''module'', PStr module),
                 (''full_name'', PStr target), (''alias'', opt_str (asname a)),
                 (''import_type'', PStr ''from''), (''level'', PInt (int level)),
                 (''is_relative'', PBool (level > 0)), (''lineno'', PInt (int l)),
                 (''is_stdlib'', PBool (if module \<noteq> [] then is_stdlib module else False))]],
             edges := edges st @
               [[(''type'', PStr ''IMPORTS''), (''from_id'', PStr (file_id st)),
                 (''to_id'', PStr import_id), (''lineno'', PInt (int l))]],
             stats := bump ''imports'' (stats st)\<rparr>)"

definition record_import :: "pylib \<Rightarrow> pyalias list \<Rightarrow> nat \<Rightarrow> extractor \<Rightarrow> extractor" where
  "record_import L names l st = fold (import_alias L l) names st"

definition record_import_from ::
  "pylib \<Rightarrow> string option \<Rightarrow> pyalias list \<Rightarrow> nat \<Rightarrow> nat \<Rightarrow> extractor \<Rightarrow> extractor" where
  "record_import_from L m names level l st =
     fold (import_from_alias L (case m of None \<Rightarrow> [] | Some s \<Rightarrow> s) level l) names st"

subsection \<open>Functions and methods\<close>

record dec_info =
  d_name :: "string option"
  d_args :: "string option list"
  d_kwargs :: "(pyval \<times> pyval) list"

fun dict_set :: "pyval \<Rightarrow> pyval \<Rightarrow> (pyval \<times> pyval) list \<Rightarrow> (pyval \<times> pyval) list" where
  "dict_set k v [] = [(k, v)]"
| "dict_set k v ((k', v') # d) = (if k' = k then (k, v) # d else (k', v') # dict_set k v d)"

definition decorator_info :: "pylib \<Rightarrow> ast \<Rightarrow> dec_info" where
  "decorator_info L dec =
     (case dec of
        Name ident l \<Rightarrow> \<lparr>d_name = Some ident, d_args = [], d_kwargs = []\<rparr>
      | Call func as keywords l \<Rightarrow>
          \<lparr>d_name = (case func of
                       Name ident l' \<Rightarrow> Some ident
                     | Attribute v attr l' \<Rightarrow> Some (get_full_name func)
                     | _ \<Rightarrow> None),
           d_args = map (safe_unparse L) as,
           d_kwargs = fold (\<lambda>kw d. dict_set (opt_str (kw_arg kw))
                                 (opt_str (safe_unparse L (kw_value kw))) d) keywords []\<rparr>
      | _ \<Rightarrow> \<lparr>d_name = safe_unparse L dec, d_args = [], d_kwargs = []\<rparr>)"

definition extract_decorator ::
  "pylib \<Rightarrow> ast \<Rightarrow> extractor \<times> dec_info list \<Rightarrow> extractor \<times> dec_info list" where
  "extract_decorator L dec acc =
     (case acc of (st, decorators) \<Rightarrow>
        if raised st \<noteq> None then (st, decorators)
        else
          (let info = decorator_info L dec;
               decorators' = decorators @ [info]
           in if nonempty (d_name info) then
                (case lineno dec of
                   None \<Rightarrow> (st\<lparr>raised := Some AttributeError\<rparr>, decorators')
                 | Some l \<Rightarrow>
                     (st\<lparr>nodes := nodes st @
                           [[(''id'', PStr (stable_id L [file_id st, ''decorator'',
                                                        the (d_name info), str_nat l])),
                             (''type'', PStr ''Decorator''),
                             (''name'', PStr (the (d_name info))),
                             (''lineno'', PInt (int l)),
                             (''args'', PList (map opt_str (d_args info))),
                             (''kwargs'', PDict (d_kwargs info))]],
                         stats := bump ''decorators'' (stats st)\<rparr>, decorators'))
              else (st, decorators')))"

definition extract_decorators :: "pylib \<Rightarrow> ast list \<Rightarrow> extractor \<Rightarrow> extractor \<times> dec_info list" where
  "extract_decorators L decorator_list st = fold (extract_decorator L) decorator_list (st, [])"

record param =
  p_name :: string
  p_type :: "string option"
  p_kind :: string
  p_default :: "string option"
  p_position :: nat

definition annotation_text :: "pylib \<Rightarrow> ast arg \<Rightarrow> string option" where
  "annotation_text L a = (case annotation a of None \<Rightarrow> None | Some t \<Rightarrow> safe_unparse L t)"

definition positional_param :: "pylib \<Rightarrow> ast arguments \<Rightarrow> nat \<Rightarrow> param" where
  "positional_param L a i =
     (let defaults_offset = int (length (args a)) - int (length (defaults a))
      in \<lparr>p_name = arg_name (args a ! i), p_type = annotation_text L (args a ! i),
           p_kind = ''positional'',
           p_default = (if int i \<ge> defaults_offset
                        then safe_unparse L (defaults a ! nat (int i - defaults_offset))
                        else None),
           p_position = i\<rparr>)"

definition kw_defaults_map :: "pylib \<Rightarrow> ast arguments \<Rightarrow> string \<rightharpoonup> string option" where
  "kw_defaults_map L a =
     map_of (rev (concat (map (\<lambda>(kw, dflt).
                                 case dflt of None \<Rightarrow> []
                                 | Some d \<Rightarrow> [(arg_name kw, safe_unparse L d)])
                              (zip (kwonlyargs a) (kw_defaults a)))))"

definition add_param :: "string \<Rightarrow> pylib \<Rightarrow> string option \<Rightarrow> ast arg \<Rightarrow> param list \<Rightarrow> param list" where
  "add_param kind L dflt a params =
     params @ [\<lparr>p_name = arg_name a, p_type = annotation_text L a, p_kind = kind,
                p_default = dflt, p_position = length params\<rparr>]"

definition extract_parameters :: "pylib \<Rightarrow> ast arguments \<Rightarrow> param list" where
  "extract_parameters L a =
     (let params = map (positional_param L a) [0 ..< length (args a)];
          params = (case vararg a of None \<Rightarrow> params
                    | Some v \<Rightarrow> add_param ''vararg'' L None v params);
          params = fold (\<lambda>k ps. add_param ''keyword_only'' L
                                  (case kw_defaults_map L a (arg_name k) of
                                     None \<Rightarrow> None | Some d \<Rightarrow> d) k ps)
                        (kwonlyargs a) params;
          params = (case kwarg a of None \<Rightarrow> params
                    | Some v \<Rightarrow> add_param ''kwarg'' L None v params)
      in params)"

definition param_dict :: "param \<Rightarrow> pydict" where
  "param_dict p =
     [(''name'', PStr (p_name p)), (''type'', opt_str (p_type p)), (''kind'', PStr (p_kind p)),
      (''default'', opt_str (p_default p)), (''position'', PInt (int (p_position p)))]"

fun is_return :: "ast \<Rightarrow> bool" where
  "is_return (Return v l) = True"
| "is_return _ = False"

fun is_if_or_ifexp :: "ast \<Rightarrow> bool" where
  "is_if_or_ifexp (PyIf t b e l) = True"
| "is_if_or_ifexp (IfExp t b e l) = True"
| "is_if_or_ifexp _ = False"

fun is_loop :: "ast \<Rightarrow> bool" where
  "is_loop (For t i b e l) = True"
| "is_loop (While t b e l) = True"
| "is_loop _ = False"

fun is_nesting :: "ast \<Rightarrow> bool" where
  "is_nesting (For t i b e l) = True"
| "is_nesting (While t b e l) = True"
| "is_nesting (PyIf t b e l) = True"
| "is_nesting (With i b l) = True"
| "is_nesting (Try b h e f l) = True"
| "is_nesting _ = False"

function calc_depth :: "ast \<Rightarrow> nat \<Rightarrow> nat" where
  "calc_depth n depth =
     fold (\<lambda>child max_d. if is_nesting child then max max_d (calc_depth child (depth + 1)) else max_d)
          (iter_child_nodes n) depth"
  by pat_completeness auto
termination
  by (relation "measure (\<lambda>(n, depth). size n)") (auto simp: size_child)

declare calc_depth.simps [simp del]

definition compute_metrics ::
  "pylib \<Rightarrow> ast \<Rightarrow> ast arguments \<Rightarrow> ast list \<Rightarrow> nat \<Rightarrow> nat option \<Rightarrow> pydict" where
  "compute_metrics L node a decorator_list l e =
     (let start_line = int l;
          end_line = (case e of None \<Rightarrow> int l | Some n \<Rightarrow> int n);
          loc = end_line - start_line + 1
      in [(''lines_of_code'', PInt loc),
          (''complexity'', PInt (calculate_complexity node)),
          (''num_parameters'', PInt (int (length (args a)))),
          (''num_returns'', PInt (int (length (filter is_return (walk node))))),
          (''num_branches'', PInt (int (length (filter is_if_or_ifexp (walk node))))),
          (''num_loops'', PInt (int (length (filter is_loop (walk node))))),
          (''has_docstring'', PBool (get_docstring L node \<noteq> None)),
          (''num_decorators'', PInt (int (length decorator_list))),
          (''max_nesting_depth'', PInt (int (calc_depth node 0)))])"

definition get_source_snippet :: "pylib \<Rightarrow> string \<Rightarrow> nat \<Rightarrow> nat option \<Rightarrow> string" where
  "get_source_snippet L text l e =
     (let lines = splitlines L text;
          start = l - 1;
          end = min (length lines) (case e of None \<Rightarrow> l | Some n \<Rightarrow> n);
          snippet_lines = take (end - start) (drop start lines);
          snippet_lines = (if length snippet_lines > 10 then take 10 snippet_lines @ [''...'']
                           else snippet_lines)
      in join [CHR 0x0A] snippet_lines)"

definition decorates_edge :: "pylib \<Rightarrow> string \<Rightarrow> nat \<Rightarrow> dec_info \<Rightarrow> extractor \<Rightarrow> extractor" where
  "decorates_edge L fn_id l dec st =
     (if nonempty (d_name dec) then
        st\<lparr>edges := edges st @
             [[(''type'', PStr ''DECORATES''),
               (''from_id'', PStr (stable_id L [file_id st, ''decorator'', the (d_name dec), str_nat l])),
               (''to_id'', PStr fn_id), (''lineno'', PInt (int l))]]\<rparr>
      else st)"

definition parameter_records :: "pylib \<Rightarrow> string \<Rightarrow> param \<Rightarrow> extractor \<Rightarrow> extractor" where
  "parameter_records L fn_id p st =
     (let param_id = stable_id L [fn_id, ''param'', p_name p]
      in st\<lparr>nodes := nodes st @
               [[(''id'', PStr param_id), (''type'', PStr ''Parameter''), (''name'', PStr (p_name p)),
                 (''param_type'', opt_str (p_type p)), (''kind'', PStr (p_kind p)),
                 (''default'', opt_str (p_default p)), (''position'', PInt (int (p_position p)))]],
             edges := edges st @
               [[(''type'', PStr ''HAS_PARAMETER''), (''from_id'', PStr fn_id),
                 (''to_id'', PStr param_id), (''position'', PInt (int (p_position p)))]]\<rparr>)"

definition function_id :: "pylib \<Rightarrow> extractor \<Rightarrow> string \<Rightarrow> nat \<Rightarrow> string" where
  "function_id L st name l = stable_id L [file_id st, ''function'', name, str_nat l]"

definition dec_info_dict :: "dec_info \<Rightarrow> pyval" where
  "dec_info_dict d =
     sdict [(''name'', opt_str (d_name d)), (''args'', PList (map opt_str (d_args d))),
            (''kwargs'', PDict (d_kwargs d))]"

definition function_node ::
  "pylib \<Rightarrow> extractor \<Rightarrow> ast \<Rightarrow> dec_info list \<Rightarrow> param list \<Rightarrow> pydict" where
  "function_node L st node decorators parameters =
     (case node of
        FunctionDef is_async name a body decorator_list returns l e \<Rightarrow>
          (let is_method = (current_class st \<noteq> None);
               snippet = get_source_snippet L (src st) l e
           in [(''id'', PStr (function_id L st name l)),
               (''type'', PStr (if is_method then ''Method'' else ''Function'')),
               (''name'', PStr name),
               (''qualified_name'',
                  PStr (if is_method then the (current_class st) @ ''.'' @ name else name)),
               (''is_async'', PBool is_async),
               (''is_method'', PBool is_method),
               (''is_static'', PBool (list_ex (\<lambda>d. d_name d = Some ''staticmethod'') decorators)),
               (''is_class_method'', PBool (list_ex (\<lambda>d. d_name d = Some ''classmethod'') decorators)),
               (''is_property'', PBool (list_ex (\<lambda>d. d_name d = Some ''property'') decorators)),
               (''is_private'', PBool (startswith name ''_'' \<and> \<not> startswith name ''__'')),
               (''is_magic'', PBool (startswith name ''__'' \<and> endswith name ''__'')),
               (''decorators'', PList (map (\<lambda>d. opt_str (d_name d)) decorators)),
               (''decorator_details'', PList (map dec_info_dict decorators)),
               (''parameters'', PList (map (\<lambda>p. sdict (param_dict p)) parameters)),
               (''return_type'',
                  opt_str (case returns of None \<Rightarrow> None | Some r \<Rightarrow> safe_unparse L r)),
               (''lineno'', PInt (int l)),
               (''end_lineno'', opt_nat e),
               (''docstring'', opt_str (get_docstring L node)),
               (''snippet'', PStr (take 500 snippet)),
               (''metrics'', sdict (compute_metrics L node a decorator_list l e))])
      | _ \<Rightarrow> [])"

definition record_function :: "pylib \<Rightarrow> ast \<Rightarrow> extractor \<Rightarrow> extractor" where
  "record_function L node st =
     (case node of
        FunctionDef is_async name a body decorator_list returns l e \<Rightarrow>
          (let is_method = (current_class st \<noteq> None);
               parent_scope = get_current_scope st;
               fn_id = function_id L st name l
           in case extract_decorators L decorator_list st of
                (st1, decorators) \<Rightarrow>
                  if raised st1 \<noteq> None then st1
                  else
                    (let parameters = extract_parameters L a;
                         st2 = st1\<lparr>defined_names := (defined_names st1)(name \<mapsto> fn_id)\<rparr>;
                         st3 = st2\<lparr>nodes := nodes st2 @ [function_node L st node decorators parameters],
                                    edges := edges st2 @
                                      [[(''type'', PStr ''DEFINES''), (''from_id'', PStr parent_scope),
                                        (''to_id'', PStr fn_id),
                                        (''relationship'',
                                           PStr (if is_method then ''contains_method''
                                                 else ''contains_function''))]]\<rparr>;
                         st4 = fold (parameter_records L fn_id) parameters st3;
                         st5 = fold (decorates_edge L fn_id l) decorators st4
                     in st5\<lparr>stats := bump (if is_method then ''methods'' else ''functions'')
                                       (stats st5)\<rparr>))
      | _ \<Rightarrow> st)"

subsection \<open>Classes, assignments, calls, raise and return\<close>

fun is_function_def :: "ast \<Rightarrow> bool" where
  "is_function_def (FunctionDef is_async name a body decorator_list returns l e) = True"
| "is_function_def _ = False"

fun is_assign :: "ast \<Rightarrow> bool" where
  "is_assign (Assign targets v l) = True"
| "is_assign _ = False"

definition class_decorator :: "pylib \<Rightarrow> ast \<Rightarrow> string list" where
  "class_decorator L dec =
     (case dec of
        Name ident l \<Rightarrow> [ident]
      | _ \<Rightarrow> (if nonempty (safe_unparse L dec) then [the (safe_unparse L dec)] else []))"

definition base_names :: "pylib \<Rightarrow> ast list \<Rightarrow> string list" where
  "base_names L bases =
     concat (map (\<lambda>b. if nonempty (safe_unparse L b) then [the (safe_unparse L b)] else []) bases)"

definition class_id_of :: "pylib \<Rightarrow> extractor \<Rightarrow> string \<Rightarrow> nat \<Rightarrow> string" where
  "class_id_of L st name l = stable_id L [str_path (file_path st), ''class'', name, str_nat l]"

definition inherits_edge :: "string \<Rightarrow> string \<Rightarrow> extractor \<Rightarrow> extractor" where
  "inherits_edge class_id base st =
     (case defined_names st base of
        Some target \<Rightarrow>
          st\<lparr>edges := edges st @
               [[(''type'', PStr ''INHERITS''), (''from_id'', PStr class_id),
                 (''to_id'', PStr target), (''base_name'', PStr base)]]\<rparr>
      | None \<Rightarrow>
          st\<lparr>edges := edges st @
               [[(''type'', PStr ''INHERITS''), (''from_id'', PStr class_id),
                 (''to_name'', PStr base), (''inferred'', PBool True)]]\<rparr>)"

definition record_class :: "pylib \<Rightarrow> ast \<Rightarrow> extractor \<Rightarrow> extractor" where
  "record_class L node st =
     (case node of
        ClassDef name bases keywords body decorator_list l e \<Rightarrow>
          (let parent_scope = get_current_scope st;
               class_id = class_id_of L st name l;
               snippet = get_source_snippet L (src st) l e;
               bases' = base_names L bases;
               decorators = concat (map (class_decorator L) decorator_list);
               st1 = st\<lparr>defined_names := (defined_names st)(name \<mapsto> class_id)\<rparr>;
               st2 = st1\<lparr>nodes := nodes st1 @
                        [[(''id'', PStr class_id), (''type'', PStr ''Class''), (''name'', PStr name),
                          (''lineno'', PInt (int l)), (''end_lineno'', opt_nat e),
                          (''docstring'', opt_str (get_docstring L node)),
                          (''snippet'', PStr (take 500 snippet)),
                          (''bases'', PList (map PStr bases')),
                          (''decorators'', PList (map PStr decorators)),
                          (''num_methods'', PInt (int (length (filter is_function_def body)))),
                          (''num_class_vars'', PInt (int (length (filter is_assign body)))),
                          (''is_private'', PBool (startswith name ''_'')),
                          (''is_abstract'', PBool (''ABC'' \<in> set bases' \<or> ''abc.ABC'' \<in> set bases'))]],
                      edges := edges st1 @
                        [[(''type'', PStr ''DEFINES''), (''from_id'', PStr parent_scope),
                          (''to_id'', PStr class_id), (''relationship'', PStr ''contains_class'')]]\<rparr>;
               st3 = fold (inherits_edge class_id) bases' st2
           in st3\<lparr>stats := bump ''classes'' (stats st3)\<rparr>)
      | _ \<Rightarrow> st)"

definition assign_target :: "pylib \<Rightarrow> ast \<Rightarrow> nat \<Rightarrow> string \<Rightarrow> ast \<Rightarrow> extractor \<Rightarrow> extractor" where
  "assign_target L v l scope target st =
     (case target of
        Name var_name l' \<Rightarrow>
          (let is_global = (scope = file_id st);
               var_id = stable_id L [scope, ''var'', var_name, str_nat l];
               value_str = (case v of Constant c l'' \<Rightarrow> Some (take 100 (py_str c))
                            | _ \<Rightarrow> safe_unparse L v);
               value_type = (case v of Constant c l'' \<Rightarrow> py_type_name c | _ \<Rightarrow> ''complex'')
           in st\<lparr>nodes := nodes st @
                    [[(''id'', PStr var_id), (''type'', PStr ''Variable''), (''name'', PStr var_name),
                      (''value'', opt_str value_str), (''value_type'', PStr value_type),
                      (''lineno'', PInt (int l)), (''is_global'', PBool is_global),
                      (''is_constant'', PBool (isupper var_name)),
                      (''is_private'', PBool (startswith var_name ''_'')),
                      (''scope'', PStr (if is_global then ''global'' else ''local''))]],
                  edges := edges st @
                    [[(''type'', PStr ''DEFINES''), (''from_id'', PStr scope),
                      (''to_id'', PStr var_id), (''relationship'', PStr ''defines_variable'')]],
                  scope_vars := (scope_vars st)(scope := insert var_name (scope_vars st scope)),
                  defined_names := (defined_names st)(var_name \<mapsto> var_id),
                  stats := bump ''variables'' (stats st)\<rparr>)
      | _ \<Rightarrow> st)"

definition record_assign :: "pylib \<Rightarrow> ast list \<Rightarrow> ast \<Rightarrow> nat \<Rightarrow> extractor \<Rightarrow> extractor" where
  "record_assign L targets v l st = fold (assign_target L v l (get_current_scope st)) targets st"

definition callee_of :: "ast \<Rightarrow> string option" where
  "callee_of func =
     (case func of
        Name ident l \<Rightarrow> Some ident
      | Attribute v attr l \<Rightarrow> Some (get_full_name func)
      | _ \<Rightarrow> None)"

definition record_call :: "ast \<Rightarrow> ast list \<Rightarrow> ast keyword list \<Rightarrow> nat \<Rightarrow> extractor \<Rightarrow> extractor" where
  "record_call func as keywords l st =
     (let caller = get_current_scope st
      in if nonempty (callee_of func) \<and> caller \<noteq> [] then
           (let callee = the (callee_of func);
                first_part = first_part_of callee;
                resolved_name =
                  (case imports_map st first_part of
                     Some origin \<Rightarrow> (if CHR ''.'' \<in> set callee
                                      then origin @ drop (length first_part) callee else origin)
                   | None \<Rightarrow> callee);
                target_id = defined_names st first_part;
                call_edge =
                  [(''type'', PStr ''CALLS''), (''from_id'', PStr caller), (''to_name'', PStr callee),
                   (''lineno'', PInt (int l)),
                   (''resolved_name'', if resolved_name \<noteq> callee then PStr resolved_name else PNone),
                   (''num_args'', PInt (int (length as))),
                   (''num_kwargs'', PInt (int (length keywords))),
                   (''inferred'', PBool (target_id = None))]
                  @ (if nonempty target_id then [(''to_id'', PStr (the target_id))] else [])
            in st\<lparr>edges := edges st @ [call_edge], stats := bump ''calls'' (stats st)\<rparr>)
         else st)"

definition function_edge :: "pylib \<Rightarrow> string \<Rightarrow> ast option \<Rightarrow> nat \<Rightarrow> extractor \<Rightarrow> extractor" where
  "function_edge L kind expr l st =
     (case expr of
        Some x \<Rightarrow>
          (if nonempty (current_function st) \<and> nonempty (safe_unparse L x) then
             st\<lparr>edges := edges st @
                  [[(''type'', PStr kind), (''from_id'', PStr (the (current_function st))),
                    (''to_name'', PStr (the (safe_unparse L x))), (''lineno'', PInt (int l))]]\<rparr>
           else st)
      | None \<Rightarrow> st)"

subsection \<open>The traversal\<close>

text \<open>
  \<^verbatim>\<open>visit(node)\<close> calls the \<^verbatim>\<open>visit_\<close> method of the node's class, or \<^verbatim>\<open>generic_visit\<close>.
  Every \<^verbatim>\<open>visit_\<close> method of the extractor does its own work (\<open>enter\<close>), calls
  \<^verbatim>\<open>generic_visit\<close>, which visits the child nodes in order, and the ones for functions and
  classes then restore the context (\<open>leave\<close>). The first argument of \<open>visit\<close> after the
  library is the number of nested \<^verbatim>\<open>visit\<close> calls the interpreter's recursion limit still
  allows; at 0 the call raises \<^verbatim>\<open>RecursionError\<close>. (Recursion inside \<^verbatim>\<open>calc_depth\<close> is not
  counted against the limit.)
\<close>

definition enter :: "pylib \<Rightarrow> ast \<Rightarrow> extractor \<Rightarrow> extractor" where
  "enter L node st =
     (case node of
        Import names l \<Rightarrow> record_import L names l st
      | ImportFrom m names level l \<Rightarrow> record_import_from L m names level l st
      | FunctionDef is_async name a body decorator_list returns l e \<Rightarrow>
          (let st1 = record_function L node st
           in if raised st1 \<noteq> None then st1
              else st1\<lparr>current_function := Some (function_id L st name l),
                       current_scope_stack := current_scope_stack st1 @ [function_id L st name l]\<rparr>)
      | ClassDef name bases keywords body decorator_list l e \<Rightarrow>
          (let st1 = record_class L node st
           in st1\<lparr>current_class := Some name,
                   current_scope_stack := current_scope_stack st1 @ [class_id_of L st name l]\<rparr>)
      | Assign targets v l \<Rightarrow> record_assign L targets v l st
      | Call func as keywords l \<Rightarrow> record_call func as keywords l st
      | Raise exc cause l \<Rightarrow> function_edge L ''RAISES'' exc l st
      | Return v l \<Rightarrow> function_edge L ''RETURNS'' v l st
      | _ \<Rightarrow> st)"

definition leave :: "ast \<Rightarrow> extractor \<Rightarrow> extractor \<Rightarrow> extractor" where
  "leave node st0 st =
     (case node of
        FunctionDef is_async name a body decorator_list returns l e \<Rightarrow>
          st\<lparr>current_scope_stack := butlast (current_scope_stack st),
             current_function := current_function st0\<rparr>
      | ClassDef name bases keywords body decorator_list l e \<Rightarrow>
          st\<lparr>current_scope_stack := butlast (current_scope_stack st),
             current_class := current_class st0\<rparr>
      | _ \<Rightarrow> st)"

fun visit :: "pylib \<Rightarrow> nat \<Rightarrow> ast \<Rightarrow> extractor \<Rightarrow> extractor" where
  "visit L 0 node st = (if raised st \<noteq> None then st else st\<lparr>raised := Some RecursionError\<rparr>)"
| "visit L (Suc d) node st =
     (if raised st \<noteq> None then st
      else
        (let st1 = enter L node st
         in if raised st1 \<noteq> None then st1
            else
              (let st2 = fold (visit L d) (iter_child_nodes node) st1
               in if raised st2 \<noteq> None then st2 else leave node st st2)))"

subsection \<open>One source unit\<close>

record pyruntime =
  read_text :: "path \<Rightarrow> exn + string"
  ast_parse :: "string \<Rightarrow> exn + ast"
  recursion_limit :: nat

definition extract_file ::
  "pylib \<Rightarrow> pyruntime \<Rightarrow> path \<Rightarrow> path \<Rightarrow> exn + (pydict list \<times> pydict list \<times> (string \<times> nat) list)" where
  "extract_file L R root fp =
     (case read_text R fp of
        Inl e \<Rightarrow> Inr ([], [], [])
      | Inr text \<Rightarrow>
          (case ast_parse R text of
             Inl e \<Rightarrow> Inr ([], [], [])
           | Inr tree \<Rightarrow>
               (case record_file_node L (new_extractor L root fp text) of
                  Inl e \<Rightarrow> Inl e
                | Inr st \<Rightarrow>
                    (let st' = visit L (recursion_limit R) tree st
                     in Inr (nodes st', edges st', stats st')))))"

subsection \<open>Unfolding the traversal\<close>

lemma raised_record_import [simp]: "raised (record_import L names l st) = raised st"
  unfolding record_import_def
  by (induction names arbitrary: st) (simp_all add: import_alias_def Let_def)

lemma raised_record_import_from [simp]: "raised (record_import_from L m names level l st) = raised st"
  unfolding record_import_from_def
  by (induction names arbitrary: st) (simp_all add: import_from_alias_def Let_def)

lemma raised_record_call [simp]: "raised (record_call func as keywords l st) = raised st"
  by (simp add: record_call_def Let_def)

lemma raised_function_edge [simp]: "raised (function_edge L kind x l st) = raised st"
  by (simp add: function_edge_def split: option.splits)

lemma raised_record_assign [simp]: "raised (record_assign L targets v l st) = raised st"
proof -
  have "raised (fold (assign_target L v l scope) targets st) = raised st" for scope
    by (induction targets arbitrary: st) (simp_all add: assign_target_def Let_def split: ast.splits)
  then show ?thesis by (simp add: record_assign_def)
qed

lemma raised_record_class [simp]: "raised (record_class L node st) = raised st"
proof (cases node)
  case (ClassDef name bases kws body decorator_list l e)
  have "raised (fold (inherits_edge cid) bs s) = raised s" for cid bs s
    by (induction bs arbitrary: s) (simp_all add: inherits_edge_def split: option.splits)
  then show ?thesis by (simp add: record_class_def ClassDef Let_def)
qed (simp_all add: record_class_def)

lemma visit_raised [simp]: "raised st \<noteq> None \<Longrightarrow> visit L d node st = st"
  by (cases d) simp_all

lemma visit_Suc:
  "raised st = None \<Longrightarrow> visit L (Suc d) node st =
     (if raised (enter L node st) \<noteq> None then enter L node st
      else if raised (fold (visit L d) (iter_child_nodes node) (enter L node st)) \<noteq> None
           then fold (visit L d) (iter_child_nodes node) (enter L node st)
           else leave node st (fold (visit L d) (iter_child_nodes node) (enter L node st)))"
  by (simp add: Let_def)

declare visit.simps [simp del]

lemma visit_module:
  "raised st = None \<Longrightarrow> visit L (Suc d) (Module body) st = fold (visit L d) body st"
  by (simp add: visit_Suc enter_def leave_def Let_def)

lemma visit_other:
  "raised st = None \<Longrightarrow> visit L (Suc d) (Other cls children l) st = fold (visit L d) children st"
  by (simp add: visit_Suc enter_def leave_def Let_def)

lemma visit_name: "raised st = None \<Longrightarrow> visit L (Suc d) (Name ident l) st = st"
  by (simp add: visit_Suc enter_def leave_def)

lemma visit_attribute:
  "raised st = None \<Longrightarrow> visit L (Suc d) (Attribute v attr l) st = visit L d v st"
  by (simp add: visit_Suc enter_def leave_def Let_def)

lemma visit_import:
  "raised st = None \<Longrightarrow> visit L (Suc d) (Import names l) st = record_import L names l st"
  by (simp add: visit_Suc enter_def leave_def)

lemma visit_import_from:
  "raised st = None \<Longrightarrow>
   visit L (Suc d) (ImportFrom m names level l) st = record_import_from L m names level l st"
  by (simp add: visit_Suc enter_def leave_def)

lemma visit_call:
  "raised st = None \<Longrightarrow>
   visit L (Suc d) (Call func as keywords l) st =
     fold (visit L d) (func # as @ map kw_value keywords) (record_call func as keywords l st)"
  by (simp add: visit_Suc enter_def leave_def Let_def)

lemma record_file_node_fields:
  assumes "relative_to fp root = Inr rel"
  shows "\<exists>st0 file_node. record_file_node L (new_extractor L root fp text) = Inr st0 \<and>
     raised st0 = None \<and> file_id st0 = stable_id L [str_path fp] \<and>
     current_scope_stack st0 = [stable_id L [str_path fp]] \<and>
     imports_map st0 = Map.empty \<and> defined_names st0 = Map.empty \<and>
     current_function st0 = None \<and> current_class st0 = None \<and>
     file_path st0 = fp \<and> src st0 = text \<and> edges st0 = [] \<and> nodes st0 = [file_node] \<and>
     map_of file_node ''type'' = Some (PStr ''File'') \<and>
     map_of file_node ''id'' = Some (PStr (stable_id L [str_path fp])) \<and>
     stats st0 = [(''functions'', 0), (''classes'', 0), (''methods'', 0), (''imports'', 0),
               (''calls'', 0), (''variables'', 0), (''decorators'', 0)]"
  using assms by (simp add: record_file_node_def new_extractor_def Let_def)

lemma extract_file_visit:
  assumes "read_text R fp = Inr text" and "ast_parse R text = Inr tree"
    and "record_file_node L (new_extractor L root fp text) = Inr st0"
  shows "extract_file L R root fp =
     Inr (nodes (visit L (recursion_limit R) tree st0), edges (visit L (recursion_limit R) tree st0),
          stats (visit L (recursion_limit R) tree st0))"
  using assms by (simp add: extract_file_def Let_def)

subsection \<open>Scenarios\<close>

definition one_file :: "ast \<Rightarrow> nat \<Rightarrow> pyruntime" where
  "one_file tree limit =
     \<lparr>read_text = (\<lambda>p. Inr []), ast_parse = (\<lambda>s. Inr tree), recursion_limit = limit\<rparr>"

definition has_type :: "string \<Rightarrow> pydict \<Rightarrow> bool" where
  "has_type t d = (map_of d ''type'' = Some (PStr t))"

definition import_and_call :: ast where
  "import_and_call =
     Module [ImportFrom (Some ''os'') [Alias ''path'' (Some ''p'')] 0 1,
             Other ''Expr'' [Call (Attribute (Name ''p'' 2) ''join'' 2) [Name ''a'' 2] [] 2] 2]"

lemma str_nat_digit: "n < 10 \<Longrightarrow> str_nat n = [''0123456789'' ! n]"
  by (simp add: str_nat.simps)

lemma relative_m_py: "relative_to [''repo'', ''m.py''] [''repo''] = Inr [''m.py'']"
  by (simp add: relative_to_def)

text \<open>
  Claim C7. The unit \<^verbatim>\<open>from os import path as p\<close> followed by \<^verbatim>\<open>p.join(a)\<close>, extracted under a
  recursion limit of at least 5 with a digest that gives the file a non-empty id: exactly
  one Import node, with alias \<^verbatim>\<open>p\<close>, module \<^verbatim>\<open>os\<close>, full name \<^verbatim>\<open>os.path\<close> and the
  standard-library flag set; exactly one Calls edge, with the raw callee \<^verbatim>\<open>p.join\<close> and the
  resolved origin \<^verbatim>\<open>os.path.join\<close>.
\<close>

theorem import_alias_resolves_call:
  assumes "stable_id L [''repo/m.py''] \<noteq> []"
  shows "\<exists>ns es ss.
     extract_file L (one_file import_and_call (Suc (Suc (Suc (Suc (Suc d)))))) [''repo''] [''repo'', ''m.py'']
       = Inr (ns, es, ss) \<and>
     filter (has_type ''Import'') ns =
       [[(''id'', PStr (stable_id L [stable_id L [''repo/m.py''], ''import'', ''os.path'', ''1''])),
         (''type'', PStr ''Import''), (''name'', PStr ''path''), (''module'', PStr ''os''),
         (''full_name'', PStr ''os.path''), (''alias'', PStr ''p''),
         (''import_type'', PStr ''from''), (''level'', PInt 0), (''is_relative'', PBool False),
         (''lineno'', PInt 1), (''is_stdlib'', PBool True)]] \<and>
     filter (has_type ''CALLS'') es =
       [[(''type'', PStr ''CALLS''), (''from_id'', PStr (stable_id L [''repo/m.py''])),
         (''to_name'', PStr ''p.join''), (''lineno'', PInt 2),
         (''resolved_name'', PStr ''os.path.join''), (''num_args'', PInt 1),
         (''num_kwargs'', PInt 0), (''inferred'', PBool True)]]"
proof -
  let ?fp = "[''repo'', ''m.py'']"
  let ?R = "one_file import_and_call (Suc (Suc (Suc (Suc (Suc d)))))"
  have sp: "str_path ?fp = ''repo/m.py''" by (simp add: str_path_def)
  from record_file_node_fields[OF relative_m_py, of L "[]"] obtain st0 file_node where
    st0: "record_file_node L (new_extractor L [''repo''] ?fp []) = Inr st0"
    and f: "raised st0 = None" "file_id st0 = stable_id L [''repo/m.py'']"
      "current_scope_stack st0 = [stable_id L [''repo/m.py'']]"
      "imports_map st0 = Map.empty" "defined_names st0 = Map.empty"
      "edges st0 = []" "nodes st0 = [file_node]" "map_of file_node ''type'' = Some (PStr ''File'')"
    unfolding sp by blast
  let ?st1 = "record_import_from L (Some ''os'') [Alias ''path'' (Some ''p'')] 0 1 st0"
  let ?st2 = "record_call (Attribute (Name ''p'' 2) ''join'' 2) [Name ''a'' 2] [] 2 ?st1"
  have v: "visit L (Suc (Suc (Suc (Suc (Suc d))))) import_and_call st0 = ?st2"
    using f(1) by (simp add: import_and_call_def visit_module visit_other visit_call
        visit_attribute visit_name visit_import_from)
  have ex: "extract_file L ?R [''repo''] ?fp = Inr (nodes ?st2, edges ?st2, stats ?st2)"
    using extract_file_visit[of ?R ?fp "[]" import_and_call L "[''repo'']" st0] st0 v
    by (simp add: one_file_def)
  have n: "filter (has_type ''Import'') (nodes ?st2) =
       [[(''id'', PStr (stable_id L [stable_id L [''repo/m.py''], ''import'', ''os.path'', ''1''])),
         (''type'', PStr ''Import''), (''name'', PStr ''path''), (''module'', PStr ''os''),
         (''full_name'', PStr ''os.path''), (''alias'', PStr ''p''),
         (''import_type'', PStr ''from''), (''level'', PInt 0), (''is_relative'', PBool False),
         (''lineno'', PInt 1), (''is_stdlib'', PBool True)]]"
    using f by (simp add: record_call_def record_import_from_def import_from_alias_def Let_def
        has_type_def opt_str_def is_stdlib_def first_part_of_def str_nat_digit)
  have e: "filter (has_type ''CALLS'') (edges ?st2) =
       [[(''type'', PStr ''CALLS''), (''from_id'', PStr (stable_id L [''repo/m.py''])),
         (''to_name'', PStr ''p.join''), (''lineno'', PInt 2),
         (''resolved_name'', PStr ''os.path.join''), (''num_args'', PInt 1),
         (''num_kwargs'', PInt 0), (''inferred'', PBool True)]]"
    using f assms by (simp add: record_call_def record_import_from_def import_from_alias_def Let_def
        has_type_def callee_of_def get_full_name_def first_part_of_def or_name_def nonempty_def
        get_current_scope_def)
  from ex n e show ?thesis by blast
qed

theorem import_alias_resolves_call_witness:
  "stable_id hex_identity [''repo/m.py''] \<noteq> [] \<and>
   (\<exists>ns es ss.
     extract_file hex_identity (one_file import_and_call 5) [''repo''] [''repo'', ''m.py'']
       = Inr (ns, es, ss) \<and>
     map (\<lambda>n. map_of n ''alias'') (filter (has_type ''Import'') ns) = [Some (PStr ''p'')] \<and>
     map (\<lambda>e. map_of e ''resolved_name'') (filter (has_type ''CALLS'') es)
       = [Some (PStr ''os.path.join'')])"
proof -
  have h: "stable_id hex_identity [''repo/m.py''] \<noteq> []"
    by (simp add: stable_id_def hex_identity_def)
  have four: "(5::nat) = Suc (Suc (Suc (Suc (Suc 0))))" by simp
  from import_alias_resolves_call[OF h, of 0] obtain ns es ss where
    "extract_file hex_identity (one_file import_and_call 5) [''repo''] [''repo'', ''m.py'']
       = Inr (ns, es, ss)"
    and "map (\<lambda>n. map_of n ''alias'') (filter (has_type ''Import'') ns) = [Some (PStr ''p'')]"
    and "map (\<lambda>e. map_of e ''resolved_name'') (filter (has_type ''CALLS'') es)
       = [Some (PStr ''os.path.join'')]"
    unfolding four by auto
  with h show ?thesis by auto
qed

definition double_import_from :: ast where
  "double_import_from = Module [ImportFrom (Some ''os'') [Alias ''path'' None, Alias ''path'' (Some ''p'')] 0 1]"

definition double_import :: ast where
  "double_import = Module [Import [Alias ''os'' None, Alias ''os'' (Some ''o'')] 1]"

text \<open>
  Claim C10. Node ids are not unique within one extraction: for the unit
  \<^verbatim>\<open>from os import path, path as p\<close>, and for the unit \<^verbatim>\<open>import os, os as o\<close>, under every
  digest and every recursion limit of at least 2, the extractor emits, after the File
  node, two Import nodes that differ (in their alias) and carry the same id: the id is
  the digest of the file id, the imported target and the line number only.
\<close>

theorem import_ids_collide:
  "(\<exists>file_node es ss n1 n2.
     extract_file L (one_file double_import_from (Suc (Suc d))) [''repo''] [''repo'', ''m.py'']
       = Inr ([file_node, n1, n2], es, ss) \<and>
     has_type ''Import'' n1 \<and> has_type ''Import'' n2 \<and> n1 \<noteq> n2 \<and>
     map_of n1 ''alias'' = Some PNone \<and> map_of n2 ''alias'' = Some (PStr ''p'') \<and>
     map_of n1 ''id'' = Some (PStr (stable_id L [stable_id L [''repo/m.py''], ''import'', ''os.path'', ''1''])) \<and>
     map_of n2 ''id'' = map_of n1 ''id'') \<and>
   (\<exists>file_node es ss n1 n2.
     extract_file L (one_file double_import (Suc (Suc d))) [''repo''] [''repo'', ''m.py'']
       = Inr ([file_node, n1, n2], es, ss) \<and>
     has_type ''Import'' n1 \<and> has_type ''Import'' n2 \<and> n1 \<noteq> n2 \<and>
     map_of n1 ''id'' = Some (PStr (stable_id L [stable_id L [''repo/m.py''], ''import'', ''os'', ''1''])) \<and>
     map_of n2 ''id'' = map_of n1 ''id'')"
proof -
  let ?fp = "[''repo'', ''m.py'']"
  have sp: "str_path ?fp = ''repo/m.py''" by (simp add: str_path_def)
  from record_file_node_fields[OF relative_m_py, of L "[]"] obtain st0 file_node where
    st0: "record_file_node L (new_extractor L [''repo''] ?fp []) = Inr st0"
    and f: "raised st0 = None" "file_id st0 = stable_id L [''repo/m.py'']"
      "nodes st0 = [file_node]"
    unfolding sp by blast
  let ?st1 = "record_import_from L (Some ''os'') [Alias ''path'' None, Alias ''path'' (Some ''p'')] 0 1 st0"
  have v: "visit L (Suc (Suc d)) double_import_from st0 = ?st1"
    using f(1) by (simp add: double_import_from_def visit_module visit_import_from)
  have ex: "extract_file L (one_file double_import_from (Suc (Suc d))) [''repo''] ?fp
      = Inr (nodes ?st1, edges ?st1, stats ?st1)"
    using extract_file_visit[of "one_file double_import_from (Suc (Suc d))" ?fp "[]"
        double_import_from L "[''repo'']" st0] st0 v
    by (simp add: one_file_def)
  have a: "\<exists>file_node es ss n1 n2.
     extract_file L (one_file double_import_from (Suc (Suc d))) [''repo''] [''repo'', ''m.py'']
       = Inr ([file_node, n1, n2], es, ss) \<and>
     has_type ''Import'' n1 \<and> has_type ''Import'' n2 \<and> n1 \<noteq> n2 \<and>
     map_of n1 ''alias'' = Some PNone \<and> map_of n2 ''alias'' = Some (PStr ''p'') \<and>
     map_of n1 ''id'' = Some (PStr (stable_id L [stable_id L [''repo/m.py''], ''import'', ''os.path'', ''1''])) \<and>
     map_of n2 ''id'' = map_of n1 ''id''"
    unfolding ex using f
    by (simp add: record_import_from_def import_from_alias_def Let_def has_type_def opt_str_def
        str_nat_digit)
  let ?st2 = "record_import L [Alias ''os'' None, Alias ''os'' (Some ''o'')] 1 st0"
  have v2: "visit L (Suc (Suc d)) double_import st0 = ?st2"
    using f(1) by (simp add: double_import_def visit_module visit_import)
  have ex2: "extract_file L (one_file double_import (Suc (Suc d))) [''repo''] ?fp
      = Inr (nodes ?st2, edges ?st2, stats ?st2)"
    using extract_file_visit[of "one_file double_import (Suc (Suc d))" ?fp "[]"
        double_import L "[''repo'']" st0] st0 v2
    by (simp add: one_file_def)
  have b: "\<exists>file_node es ss n1 n2.
     extract_file L (one_file double_import (Suc (Suc d))) [''repo''] [''repo'', ''m.py'']
       = Inr ([file_node, n1, n2], es, ss) \<and>
     has_type ''Import'' n1 \<and> has_type ''Import'' n2 \<and> n1 \<noteq> n2 \<and>
     map_of n1 ''id'' = Some (PStr (stable_id L [stable_id L [''repo/m.py''], ''import'', ''os'', ''1''])) \<and>
     map_of n2 ''id'' = map_of n1 ''id''"
    unfolding ex2 using f
    by (simp add: record_import_def import_alias_def Let_def has_type_def opt_str_def str_nat_digit)
  show ?thesis by (rule conjI[OF a b])
qed

definition decorated_def :: ast where
  "decorated_def =
     Module [FunctionDef False ''f'' (Arguments [] [] None [] [] None [])
               [Other ''Pass'' [] 2] [Name ''dec'' 1] None 2 (Some 2)]"

definition type_and_id :: "pydict \<Rightarrow> pyval option \<times> pyval option" where
  "type_and_id n = (map_of n ''type'', map_of n ''id'')"

lemma decorated_def_records:
  "\<exists>ns es ss.
     extract_file L (one_file decorated_def (Suc (Suc (Suc d)))) [''repo''] [''repo'', ''m.py'']
       = Inr (ns, es, ss) \<and>
     map type_and_id ns =
       [(Some (PStr ''File''), Some (PStr (stable_id L [''repo/m.py'']))),
        (Some (PStr ''Decorator''),
           Some (PStr (stable_id L [stable_id L [''repo/m.py''], ''decorator'', ''dec'', ''1'']))),
        (Some (PStr ''Function''),
           Some (PStr (stable_id L [stable_id L [''repo/m.py''], ''function'', ''f'', ''2''])))] \<and>
     filter (has_type ''DECORATES'') es =
       [[(''type'', PStr ''DECORATES''),
         (''from_id'', PStr (stable_id L [stable_id L [''repo/m.py''], ''decorator'', ''dec'', ''2''])),
         (''to_id'', PStr (stable_id L [stable_id L [''repo/m.py''], ''function'', ''f'', ''2''])),
         (''lineno'', PInt 2)]]"
proof -
  let ?fp = "[''repo'', ''m.py'']"
  let ?R = "one_file decorated_def (Suc (Suc (Suc d)))"
  let ?fn = "FunctionDef False ''f'' (Arguments [] [] None [] [] None [])
               [Other ''Pass'' [] 2] [Name ''dec'' 1] None 2 (Some 2)"
  have sp: "str_path ?fp = ''repo/m.py''" by (simp add: str_path_def)
  from record_file_node_fields[OF relative_m_py, of L "[]"] obtain st0 file_node where
    st0: "record_file_node L (new_extractor L [''repo''] ?fp []) = Inr st0"
    and f: "raised st0 = None" "file_id st0 = stable_id L [''repo/m.py'']"
      "current_scope_stack st0 = [stable_id L [''repo/m.py'']]"
      "current_class st0 = None"
      "edges st0 = []" "nodes st0 = [file_node]"
      "map_of file_node ''type'' = Some (PStr ''File'')"
      "map_of file_node ''id'' = Some (PStr (stable_id L [''repo/m.py'']))"
    unfolding sp by blast
  let ?st1 = "record_function L ?fn st0"
  have r1: "raised ?st1 = None"
    and n1: "map type_and_id (nodes ?st1) =
       [(Some (PStr ''File''), Some (PStr (stable_id L [''repo/m.py'']))),
        (Some (PStr ''Decorator''),
           Some (PStr (stable_id L [stable_id L [''repo/m.py''], ''decorator'', ''dec'', ''1'']))),
        (Some (PStr ''Function''),
           Some (PStr (stable_id L [stable_id L [''repo/m.py''], ''function'', ''f'', ''2''])))]"
    and e1: "filter (has_type ''DECORATES'') (edges ?st1) =
       [[(''type'', PStr ''DECORATES''),
         (''from_id'', PStr (stable_id L [stable_id L [''repo/m.py''], ''decorator'', ''dec'', ''2''])),
         (''to_id'', PStr (stable_id L [stable_id L [''repo/m.py''], ''function'', ''f'', ''2''])),
         (''lineno'', PInt 2)]]"
    using f
    by (simp_all add: record_function_def extract_decorators_def extract_decorator_def
        decorator_info_def nonempty_def extract_parameters_def function_node_def function_id_def
        decorates_edge_def get_current_scope_def type_and_id_def has_type_def Let_def
        str_nat_digit bump_def)
  let ?st2 = "?st1\<lparr>current_function := Some (function_id L st0 ''f'' 2),
      current_scope_stack := current_scope_stack ?st1 @ [function_id L st0 ''f'' 2]\<rparr>"
  have en: "enter L ?fn st0 = ?st2"
    using r1 by (simp add: enter_def Let_def)
  have ch: "fold (visit L (Suc d)) (iter_child_nodes ?fn) ?st2 = ?st2"
    using r1 by (simp add: arguments_nodes_def opt_nodes_def visit_other visit_name)
  have vf: "visit L (Suc (Suc d)) ?fn st0 = leave ?fn st0 ?st2"
    using f(1) r1 by (simp only: visit_Suc en ch) simp
  have v: "visit L (Suc (Suc (Suc d))) decorated_def st0 = leave ?fn st0 ?st2"
    using f(1) vf by (simp add: decorated_def_def visit_module)
  have ex: "extract_file L ?R [''repo''] ?fp
      = Inr (nodes (leave ?fn st0 ?st2), edges (leave ?fn st0 ?st2), stats (leave ?fn st0 ?st2))"
    using extract_file_visit[of ?R ?fp "[]" decorated_def L "[''repo'']" st0] st0 v
    by (simp add: one_file_def)
  have "nodes (leave ?fn st0 ?st2) = nodes ?st1" "edges (leave ?fn st0 ?st2) = edges ?st1"
    by (simp_all add: leave_def)
  with ex n1 e1 show ?thesis by simp
qed

text \<open>
  Claim C2. Every node id an edge names as \<^verbatim>\<open>from_id\<close> or \<^verbatim>\<open>to_id\<close> is the id of a node emitted
  earlier in the same pass, in particular for the Decorates edge from a decorator's node
  to its function. For the unit \<^verbatim>\<open>@dec\<close> (line 1) \<^verbatim>\<open>def f(): pass\<close> (line 2) the code emits,
  under every digest and every recursion limit of at least 3, the File node, the Decorator
  node with the id made from the decorator's line 1, and the Function node; the
  \<^verbatim>\<open>from_id\<close> of the Decorates edge is made from the function's line 2. Under a digest
  without collisions (here: the joined text itself, marked) that id belongs to no node of
  the unit.
\<close>

theorem decorates_edge_dangles:
  "(\<exists>ns es ss.
     extract_file L (one_file decorated_def (Suc (Suc (Suc d)))) [''repo''] [''repo'', ''m.py'']
       = Inr (ns, es, ss) \<and>
     map type_and_id ns =
       [(Some (PStr ''File''), Some (PStr (stable_id L [''repo/m.py'']))),
        (Some (PStr ''Decorator''),
           Some (PStr (stable_id L [stable_id L [''repo/m.py''], ''decorator'', ''dec'', ''1'']))),
        (Some (PStr ''Function''),
           Some (PStr (stable_id L [stable_id L [''repo/m.py''], ''function'', ''f'', ''2''])))] \<and>
     filter (has_type ''DECORATES'') es =
       [[(''type'', PStr ''DECORATES''),
         (''from_id'', PStr (stable_id L [stable_id L [''repo/m.py''], ''decorator'', ''dec'', ''2''])),
         (''to_id'', PStr (stable_id L [stable_id L [''repo/m.py''], ''function'', ''f'', ''2''])),
         (''lineno'', PInt 2)]]) \<and>
   (\<exists>ns es ss e.
     extract_file hex_identity (one_file decorated_def (Suc (Suc (Suc 0)))) [''repo''] [''repo'', ''m.py'']
       = Inr (ns, es, ss) \<and>
     filter (has_type ''DECORATES'') es = [e] \<and>
     map_of e ''from_id'' = Some (PStr ''hhrepo/m.py::decorator::dec::2'') \<and>
     Some (PStr ''hhrepo/m.py::decorator::dec::2'') \<notin> set (map (\<lambda>n. map_of n ''id'') ns))"
proof (rule conjI)
  show "\<exists>ns es ss.
     extract_file L (one_file decorated_def (Suc (Suc (Suc d)))) [''repo''] [''repo'', ''m.py'']
       = Inr (ns, es, ss) \<and>
     map type_and_id ns =
       [(Some (PStr ''File''), Some (PStr (stable_id L [''repo/m.py'']))),
        (Some (PStr ''Decorator''),
           Some (PStr (stable_id L [stable_id L [''repo/m.py''], ''decorator'', ''dec'', ''1'']))),
        (Some (PStr ''Function''),
           Some (PStr (stable_id L [stable_id L [''repo/m.py''], ''function'', ''f'', ''2''])))] \<and>
     filter (has_type ''DECORATES'') es =
       [[(''type'', PStr ''DECORATES''),
         (''from_id'', PStr (stable_id L [stable_id L [''repo/m.py''], ''decorator'', ''dec'', ''2''])),
         (''to_id'', PStr (stable_id L [stable_id L [''repo/m.py''], ''function'', ''f'', ''2''])),
         (''lineno'', PInt 2)]]"
    by (rule decorated_def_records)
next
  from decorated_def_records[of hex_identity 0] obtain ns es ss where
    ex: "extract_file hex_identity (one_file decorated_def (Suc (Suc (Suc 0)))) [''repo''] [''repo'', ''m.py'']
       = Inr (ns, es, ss)"
    and n: "map type_and_id ns =
       [(Some (PStr ''File''), Some (PStr (stable_id hex_identity [''repo/m.py'']))),
        (Some (PStr ''Decorator''),
           Some (PStr (stable_id hex_identity
             [stable_id hex_identity [''repo/m.py''], ''decorator'', ''dec'', ''1'']))),
        (Some (PStr ''Function''),
           Some (PStr (stable_id hex_identity
             [stable_id hex_identity [''repo/m.py''], ''function'', ''f'', ''2''])))]"
    and e: "filter (has_type ''DECORATES'') es =
       [[(''type'', PStr ''DECORATES''),
         (''from_id'', PStr (stable_id hex_identity
             [stable_id hex_identity [''repo/m.py''], ''decorator'', ''dec'', ''2''])),
         (''to_id'', PStr (stable_id hex_identity
             [stable_id hex_identity [''repo/m.py''], ''function'', ''f'', ''2''])),
         (''lineno'', PInt 2)]]"
    by (elim exE conjE) (rule that; assumption)
  have ids: "map (\<lambda>n. map_of n ''id'') ns = map snd (map type_and_id ns)"
    by (simp add: type_and_id_def)
  have notin: "Some (PStr ''hhrepo/m.py::decorator::dec::2'') \<notin> set (map (\<lambda>n. map_of n ''id'') ns)"
    unfolding ids n by (simp add: stable_id_def hex_identity_def)
  have from_id: "map_of (hd (filter (has_type ''DECORATES'') es)) ''from_id''
      = Some (PStr ''hhrepo/m.py::decorator::dec::2'')"
    unfolding e by (simp add: stable_id_def hex_identity_def)
  from ex e from_id notin show "\<exists>ns es ss e.
     extract_file hex_identity (one_file decorated_def (Suc (Suc (Suc 0)))) [''repo''] [''repo'', ''m.py'']
       = Inr (ns, es, ss) \<and>
     filter (has_type ''DECORATES'') es = [e] \<and>
     map_of e ''from_id'' = Some (PStr ''hhrepo/m.py::decorator::dec::2'') \<and>
     Some (PStr ''hhrepo/m.py::decorator::dec::2'') \<notin> set (map (\<lambda>n. map_of n ''id'') ns)"
    by (intro exI[of _ ns] exI[of _ es] exI[of _ ss]
        exI[of _ "hd (filter (has_type ''DECORATES'') es)"]) simp
qed

section \<open>Pipeline orchestrator\<close>

text \<open>
  \<^verbatim>\<open>main\<close> passes \<^verbatim>\<open>args.exclude or []\<close> to \<^verbatim>\<open>analyze_repository\<close>, which passes it to
  \<^verbatim>\<open>build_directory_tree\<close> and \<^verbatim>\<open>find_python_files\<close>. Of \<^verbatim>\<open>analyze_repository\<close> the model keeps
  the walk, the discovery and the loop over the files: the records appended to the two
  record files, the summed statistics and the error count. It leaves out the checks for
  existing output, the prompts and the statistics file. \<open>None\<close> is the early
  \<^verbatim>\<open>return False\<close> when no Python file is found.
\<close>

definition main_exclude :: "string list option \<Rightarrow> string list" where
  "main_exclude args_exclude = (case args_exclude of None \<Rightarrow> [] | Some e \<Rightarrow> if e = [] then [] else e)"

record analysis =
  py_files :: "path list"
  written_nodes :: "pydict list"
  written_edges :: "pydict list"
  total_stats :: "(string \<times> nat) list"
  errors :: nat

definition add_stat :: "string \<times> nat \<Rightarrow> (string \<times> nat) list \<Rightarrow> (string \<times> nat) list" where
  "add_stat kv tot =
     (if fst kv \<in> fst ` set tot
      then map (\<lambda>(k, v). if k = fst kv then (k, v + snd kv) else (k, v)) tot
      else tot @ [kv])"

definition process_file :: "pylib \<Rightarrow> pyruntime \<Rightarrow> path \<Rightarrow> path \<Rightarrow> analysis \<Rightarrow> exn + analysis" where
  "process_file L R repo_path fp a =
     (case extract_file L R repo_path fp of
        Inl e \<Rightarrow> Inl e
      | Inr (ns, es, ss) \<Rightarrow>
          if ns = [] \<and> es = [] then Inr (a\<lparr>errors := errors a + 1\<rparr>)
          else Inr (a\<lparr>written_nodes := written_nodes a @ ns,
                        written_edges := written_edges a @ es,
                        total_stats := fold add_stat ss (total_stats a)\<rparr>))"

definition analyze_repository ::
  "pylib \<Rightarrow> pyruntime \<Rightarrow> path \<Rightarrow> string list \<Rightarrow> dirtree \<Rightarrow> exn + analysis option" where
  "analyze_repository L R repo_path exclude tree =
     (case build_directory_tree L repo_path (Some exclude) tree of
        Inl e \<Rightarrow> Inl e
      | Inr w \<Rightarrow>
          (let files = find_python_files repo_path (Some exclude) tree
           in if files = [] then Inr None
              else (case fold_exn (process_file L R repo_path) files
                           \<lparr>py_files = files, written_nodes = w_nodes w,
                            written_edges = w_edges w, total_stats = [], errors = 0\<rparr> of
                      Inl e \<Rightarrow> Inl e
                    | Inr a \<Rightarrow> Inr (Some a))))"

definition main_analysis ::
  "pylib \<Rightarrow> pyruntime \<Rightarrow> path \<Rightarrow> string list option \<Rightarrow> dirtree \<Rightarrow> exn + analysis option" where
  "main_analysis L R repo_path args_exclude tree =
     analyze_repository L R repo_path (main_exclude args_exclude) tree"

definition unreadable :: pyruntime where
  "unreadable = \<lparr>read_text = (\<lambda>p. Inl UnicodeDecodeError), ast_parse = (\<lambda>s. Inl SyntaxError),
                  recursion_limit = 1000\<rparr>"

lemma extract_file_unreadable: "extract_file L unreadable root fp = Inr ([], [], [])"
  by (simp add: extract_file_def unreadable_def)

text \<open>
  Claim C9. When the caller supplies no exclusion set, the walk and the discovery exclude
  the default directory names (\<^verbatim>\<open>__pycache__\<close>, \<^verbatim>\<open>node_modules\<close>, \<^verbatim>\<open>venv\<close>, \<^verbatim>\<open>build\<close>, \<^verbatim>\<open>dist\<close>, ...)
  besides the directories whose name begins with a dot. For a repository with the files
  \<^verbatim>\<open>a.py\<close>, \<^verbatim>\<open>venv/x.py\<close> and \<^verbatim>\<open>.git/h.py\<close>, a run of \<^verbatim>\<open>main\<close> without \<^verbatim>\<open>--exclude\<close> discovers
  \<^verbatim>\<open>venv/x.py\<close> and emits a Directory node for \<^verbatim>\<open>venv\<close>: \<^verbatim>\<open>main\<close> passes \<^verbatim>\<open>[]\<close>, not \<^verbatim>\<open>None\<close>, so
  the default lists of the two functions are never used. Called with \<^verbatim>\<open>None\<close>, the
  discovery does skip \<^verbatim>\<open>venv\<close>.
\<close>

theorem defaults_never_applied:
  "find_python_files [''repo''] (Some (main_exclude None)) repo_with_venv
     = [[''repo'', ''a.py''], [''repo'', ''venv'', ''x.py'']] \<and>
   find_python_files [''repo''] None repo_with_venv = [[''repo'', ''a.py'']] \<and>
   (\<exists>a. main_analysis hex_identity unreadable [''repo''] None repo_with_venv = Inr (Some a) \<and>
        py_files a = [[''repo'', ''a.py''], [''repo'', ''venv'', ''x.py'']] \<and>
        map (\<lambda>n. map_of n ''name'') (filter (has_type ''Directory'') (written_nodes a))
          = [Some (PStr ''venv'')] \<and>
        errors a = 2)"
proof -
  have w: "os_walk (kept []) [''repo''] repo_with_venv
      = [([''repo''], [''venv''], [''a.py'']), ([''repo'', ''venv''], [], [''x.py''])]"
    by (simp add: repo_with_venv_def kept_def startswith_def)
  have a: "find_python_files [''repo''] (Some (main_exclude None)) repo_with_venv
     = [[''repo'', ''a.py''], [''repo'', ''venv'', ''x.py'']]"
    by (simp add: find_python_files_def main_exclude_def w is_python_file_def endswith_def
        startswith_def)
  have b: "find_python_files [''repo''] None repo_with_venv = [[''repo'', ''a.py'']]"
    by (simp add: find_python_files_def repo_with_venv_def kept_def startswith_def
        is_python_file_def endswith_def)
  have t: "\<exists>w. build_directory_tree hex_identity [''repo''] (Some []) repo_with_venv = Inr w \<and>
      map (\<lambda>n. map_of n ''name'') (filter (has_type ''Directory'') (w_nodes w)) = [Some (PStr ''venv'')]"
    by (simp add: build_directory_tree_def w walk_step_def enter_directory_def truthy_def
        add_subdirectory_def add_file_edge_def relative_to_def stable_id_def hex_identity_def
        has_type_def Let_def is_python_file_def endswith_def startswith_def)
  then obtain w where bw: "build_directory_tree hex_identity [''repo''] (Some []) repo_with_venv = Inr w"
    and dn: "map (\<lambda>n. map_of n ''name'') (filter (has_type ''Directory'') (w_nodes w)) = [Some (PStr ''venv'')]"
    by (elim exE conjE)
  have c: "\<exists>a. main_analysis hex_identity unreadable [''repo''] None repo_with_venv = Inr (Some a) \<and>
        py_files a = [[''repo'', ''a.py''], [''repo'', ''venv'', ''x.py'']] \<and>
        map (\<lambda>n. map_of n ''name'') (filter (has_type ''Directory'') (written_nodes a))
          = [Some (PStr ''venv'')] \<and>
        errors a = 2"
    using a bw dn
    by (simp add: main_analysis_def analyze_repository_def main_exclude_def process_file_def
        extract_file_unreadable)
  from a b c show ?thesis by (intro conjI)
qed

section \<open>Invariants of the traversal\<close>

definition id_in :: "pydict list \<Rightarrow> string \<Rightarrow> bool" where
  "id_in ns i = list_ex (\<lambda>n. map_of n ''id'' = Some (PStr i)) ns"

definition edge_ok :: "pydict list \<Rightarrow> pydict \<Rightarrow> bool" where
  "edge_ok ns e =
     (case map_of e ''to_id'' of
        Some (PStr i) \<Rightarrow> id_in ns i
      | Some _ \<Rightarrow> False
      | None \<Rightarrow> has_key ''to_name'' e)"

definition names_ok :: "extractor \<Rightarrow> bool" where
  "names_ok st = (\<forall>k v. defined_names st k = Some v \<longrightarrow> id_in (nodes st) v)"

definition well_formed :: "extractor \<Rightarrow> bool" where
  "well_formed st = (names_ok st \<and> list_all (edge_ok (nodes st)) (edges st))"

definition grows :: "extractor \<Rightarrow> extractor \<Rightarrow> bool" where
  "grows st st' = (\<exists>ns es. nodes st' = nodes st @ ns \<and> edges st' = edges st @ es)"

lemma grows_refl [simp]: "grows st st"
  by (simp add: grows_def)

lemma grows_trans: "grows a b \<Longrightarrow> grows b c \<Longrightarrow> grows a c"
  by (auto simp: grows_def)

lemma id_in_append: "id_in ns i \<Longrightarrow> id_in (ns @ ms) i"
  by (auto simp: id_in_def list_ex_iff)

lemma id_in_last: "map_of n ''id'' = Some (PStr i) \<Longrightarrow> id_in (ns @ [n]) i"
  by (auto simp: id_in_def list_ex_iff)

lemma edge_ok_append: "edge_ok ns e \<Longrightarrow> edge_ok (ns @ ms) e"
  by (auto simp: edge_ok_def id_in_append split: option.splits pyval.splits)

lemma wf_step:
  assumes "well_formed st" and "nodes st' = nodes st @ ns" and "edges st' = edges st @ es"
    and "\<And>k v. defined_names st' k = Some v \<Longrightarrow> defined_names st k = Some v \<or> id_in (nodes st') v"
    and "\<And>e. e \<in> set es \<Longrightarrow> edge_ok (nodes st') e"
  shows "well_formed st'"
proof -
  from assms(1) have n: "names_ok st" and e: "list_all (edge_ok (nodes st)) (edges st)"
    by (simp_all add: well_formed_def)
  have "names_ok st'"
    unfolding names_ok_def
  proof (intro allI impI)
    fix k v assume "defined_names st' k = Some v"
    from assms(4)[OF this] show "id_in (nodes st') v"
    proof
      assume "defined_names st k = Some v"
      with n have "id_in (nodes st) v" by (simp add: names_ok_def)
      then show ?thesis by (simp add: assms(2) id_in_append)
    qed
  qed
  moreover have "list_all (edge_ok (nodes st')) (edges st')"
    using e assms(5) by (auto simp: assms(2,3) list_all_iff edge_ok_append)
  ultimately show ?thesis by (simp add: well_formed_def)
qed

lemma fold_inv:
  assumes "\<And>x s. P s \<Longrightarrow> P (f x s)" and "P s"
  shows "P (fold f xs s)"
  using assms(2) by (induction xs arbitrary: s) (auto intro: assms(1))

lemma fold_grows:
  assumes "\<And>x s. grows s (f x s)"
  shows "grows s (fold f xs s)"
proof (induction xs arbitrary: s)
  case Nil
  show ?case by simp
next
  case (Cons x xs)
  from grows_trans[OF assms[of s x] Cons[of "f x s"]] show ?case by simp
qed

subsection \<open>Imports\<close>

lemma import_alias_grows: "grows st (import_alias L l a st)"
  by (simp add: grows_def import_alias_def Let_def)

lemma import_from_alias_grows: "grows st (import_from_alias L m level l a st)"
  by (simp add: grows_def import_from_alias_def Let_def)

lemma import_alias_wf: "well_formed st \<Longrightarrow> well_formed (import_alias L l a st)"
  by (rule wf_step[where ns = "[hd (drop (length (nodes st)) (nodes (import_alias L l a st)))]"
        and es = "[hd (drop (length (edges st)) (edges (import_alias L l a st)))]"])
     (auto simp: import_alias_def Let_def edge_ok_def id_in_def)

lemma import_from_alias_wf: "well_formed st \<Longrightarrow> well_formed (import_from_alias L m level l a st)"
  by (rule wf_step[where ns = "[hd (drop (length (nodes st)) (nodes (import_from_alias L m level l a st)))]"
        and es = "[hd (drop (length (edges st)) (edges (import_from_alias L m level l a st)))]"])
     (auto simp: import_from_alias_def Let_def edge_ok_def id_in_def)

lemma record_import_wf: "well_formed st \<Longrightarrow> well_formed (record_import L names l st)"
  unfolding record_import_def by (rule fold_inv) (rule import_alias_wf)

lemma record_import_grows: "grows st (record_import L names l st)"
  unfolding record_import_def by (rule fold_grows) (rule import_alias_grows)

lemma record_import_from_wf: "well_formed st \<Longrightarrow> well_formed (record_import_from L m names level l st)"
  unfolding record_import_from_def by (rule fold_inv) (rule import_from_alias_wf)

lemma record_import_from_grows: "grows st (record_import_from L m names level l st)"
  unfolding record_import_from_def by (rule fold_grows) (rule import_from_alias_grows)

subsection \<open>Calls, raise and return\<close>

lemma record_call_grows: "grows st (record_call func as kws l st)"
  by (simp add: grows_def record_call_def Let_def)

lemma record_call_cases:
  "record_call func as kws l st = st \<or>
   (\<exists>e. record_call func as kws l st
          = st\<lparr>edges := edges st @ [e], stats := bump ''calls'' (stats st)\<rparr> \<and>
        has_key ''to_name'' e \<and>
        (map_of e ''to_id'' = None \<or>
         (\<exists>tid k. map_of e ''to_id'' = Some (PStr tid) \<and> defined_names st k = Some tid)))"
proof (cases "nonempty (callee_of func) \<and> get_current_scope st \<noteq> []")
  case False
  then have "\<not> nonempty (callee_of func) \<or> get_current_scope st = []" by simp
  then have "record_call func as kws l st = st"
    by (rule disjE) (simp_all add: record_call_def Let_def)
  then show ?thesis ..
next
  case True
  let ?first = "first_part_of (the (callee_of func))"
  show ?thesis
  proof (cases "nonempty (defined_names st ?first)")
    case no: False
    have "record_call func as kws l st
          = st\<lparr>edges := edges st @ [last (edges (record_call func as kws l st))],
                stats := bump ''calls'' (stats st)\<rparr>"
      using True by (simp add: record_call_def Let_def)
    moreover have "has_key ''to_name'' (last (edges (record_call func as kws l st)))"
      using True no by (simp add: record_call_def Let_def has_key_def)
    moreover have "map_of (last (edges (record_call func as kws l st))) ''to_id'' = None"
      using True no by (simp add: record_call_def Let_def)
    ultimately show ?thesis by blast
  next
    case yes: True
    then obtain tid where tid: "defined_names st ?first = Some tid"
      by (auto simp: nonempty_def split: option.splits)
    have "record_call func as kws l st
          = st\<lparr>edges := edges st @ [last (edges (record_call func as kws l st))],
                stats := bump ''calls'' (stats st)\<rparr>"
      using True by (simp add: record_call_def Let_def)
    moreover have "has_key ''to_name'' (last (edges (record_call func as kws l st)))"
      using True yes by (simp add: record_call_def Let_def has_key_def)
    moreover have "map_of (last (edges (record_call func as kws l st))) ''to_id'' = Some (PStr tid)"
      using True yes tid by (simp add: record_call_def Let_def)
    ultimately show ?thesis using tid by blast
  qed
qed

lemma record_call_wf:
  assumes "well_formed st"
  shows "well_formed (record_call func as kws l st)"
proof -
  from assms have n: "names_ok st" by (simp add: well_formed_def)
  from record_call_cases[of func as kws l st] show ?thesis
  proof
    assume "record_call func as kws l st = st"
    with assms show ?thesis by simp
  next
    assume "\<exists>e. record_call func as kws l st
          = st\<lparr>edges := edges st @ [e], stats := bump ''calls'' (stats st)\<rparr> \<and>
        has_key ''to_name'' e \<and>
        (map_of e ''to_id'' = None \<or>
         (\<exists>tid k. map_of e ''to_id'' = Some (PStr tid) \<and> defined_names st k = Some tid))"
    then obtain e where eq: "record_call func as kws l st
          = st\<lparr>edges := edges st @ [e], stats := bump ''calls'' (stats st)\<rparr>"
      and tn: "has_key ''to_name'' e"
      and ti: "map_of e ''to_id'' = None \<or>
         (\<exists>tid k. map_of e ''to_id'' = Some (PStr tid) \<and> defined_names st k = Some tid)"
      by blast
    have ok: "edge_ok (nodes st) e"
      using ti
    proof
      assume "map_of e ''to_id'' = None"
      with tn show ?thesis by (simp add: edge_ok_def)
    next
      assume "\<exists>tid k. map_of e ''to_id'' = Some (PStr tid) \<and> defined_names st k = Some tid"
      then obtain tid k where "map_of e ''to_id'' = Some (PStr tid)" "defined_names st k = Some tid"
        by blast
      with n show ?thesis by (auto simp: edge_ok_def names_ok_def)
    qed
    show ?thesis
      unfolding eq
      by (rule wf_step[OF assms, where ns = "[]" and es = "[e]"]) (simp_all add: ok)
  qed
qed

lemma function_edge_grows: "grows st (function_edge L kind x l st)"
  by (simp add: grows_def function_edge_def split: option.splits)

lemma wf_add_edge:
  assumes "well_formed st" and "edge_ok (nodes st) e"
    and "nodes st' = nodes st" and "edges st' = edges st @ [e]"
    and "defined_names st' = defined_names st"
  shows "well_formed st'"
  by (rule wf_step[OF assms(1), where ns = "[]" and es = "[e]"]) (simp_all add: assms)

lemma function_edge_wf:
  assumes "well_formed st"
  shows "well_formed (function_edge L kind x l st)"
proof (cases x)
  case None
  with assms show ?thesis by (simp add: function_edge_def)
next
  case (Some y)
  show ?thesis
  proof (cases "nonempty (current_function st) \<and> nonempty (safe_unparse L y)")
    case False
    then have "\<not> nonempty (current_function st) \<or> \<not> nonempty (safe_unparse L y)" by simp
    then have "function_edge L kind x l st = st"
      by (rule disjE) (simp_all add: function_edge_def Some)
    with assms show ?thesis by simp
  next
    case True
    let ?e = "[(''type'', PStr kind), (''from_id'', PStr (the (current_function st))),
               (''to_name'', PStr (the (safe_unparse L y))), (''lineno'', PInt (int l))]"
    have "edge_ok (nodes st) ?e" by (simp add: edge_ok_def has_key_def)
    from wf_add_edge[OF assms this, of "function_edge L kind x l st"] True show ?thesis
      by (simp add: function_edge_def Some)
  qed
qed

lemma wf_frame:
  "nodes st' = nodes st \<Longrightarrow> edges st' = edges st \<Longrightarrow> defined_names st' = defined_names st \<Longrightarrow>
   well_formed st \<Longrightarrow> well_formed st'"
  by (simp add: well_formed_def names_ok_def)

lemma grows_frame:
  "nodes st' = nodes st \<Longrightarrow> edges st' = edges st \<Longrightarrow> grows st st'"
  by (simp add: grows_def)

lemma wf_add_node:
  assumes "well_formed st" and "nodes st' = nodes st @ [n]" and "edges st' = edges st @ es"
    and "map_of n ''id'' = Some (PStr i)"
    and "\<And>e. e \<in> set es \<Longrightarrow> edge_ok (nodes st @ [n]) e"
    and "\<And>k v. defined_names st' k = Some v \<Longrightarrow> defined_names st k = Some v \<or> v = i"
  shows "well_formed st'"
proof (rule wf_step[OF assms(1,2,3)])
  fix k v assume "defined_names st' k = Some v"
  from assms(6)[OF this] show "defined_names st k = Some v \<or> id_in (nodes st') v"
    using id_in_last[OF assms(4), of "nodes st"] by (auto simp: assms(2))
next
  fix e assume "e \<in> set es"
  from assms(5)[OF this] show "edge_ok (nodes st') e" by (simp add: assms(2))
qed

subsection \<open>Assignments\<close>

lemma assign_target_grows: "grows st (assign_target L v l scope target st)"
  by (cases target) (simp_all add: grows_def assign_target_def Let_def)

lemma assign_target_wf:
  assumes "well_formed st"
  shows "well_formed (assign_target L v l scope target st)"
proof (cases target)
  case (Name var_name l')
  let ?i = "stable_id L [scope, ''var'', var_name, str_nat l]"
  let ?st' = "assign_target L v l scope target st"
  show ?thesis
  proof (rule wf_add_node[OF assms, where i = ?i and n = "last (nodes ?st')"
        and es = "[last (edges ?st')]"])
    show "nodes ?st' = nodes st @ [last (nodes ?st')]"
      by (simp add: assign_target_def Name Let_def)
    show "edges ?st' = edges st @ [last (edges ?st')]"
      by (simp add: assign_target_def Name Let_def)
    show "map_of (last (nodes ?st')) ''id'' = Some (PStr ?i)"
      by (simp add: assign_target_def Name Let_def)
    show "e \<in> set [last (edges ?st')] \<Longrightarrow> edge_ok (nodes st @ [last (nodes ?st')]) e" for e
      by (simp add: assign_target_def Name Let_def edge_ok_def id_in_def)
    show "defined_names ?st' k = Some w \<Longrightarrow> defined_names st k = Some w \<or> w = ?i" for k w
      by (simp add: assign_target_def Name Let_def split: if_splits)
  qed
qed (use assms in \<open>simp_all add: assign_target_def\<close>)

lemma record_assign_wf: "well_formed st \<Longrightarrow> well_formed (record_assign L targets v l st)"
  unfolding record_assign_def by (rule fold_inv) (rule assign_target_wf)

lemma record_assign_grows: "grows st (record_assign L targets v l st)"
  unfolding record_assign_def by (rule fold_grows) (rule assign_target_grows)

subsection \<open>Classes\<close>

lemma inherits_edge_grows: "grows st (inherits_edge cid base st)"
  by (simp add: grows_def inherits_edge_def split: option.splits)

lemma inherits_edge_wf:
  assumes "well_formed st"
  shows "well_formed (inherits_edge cid base st)"
proof (cases "defined_names st base")
  case None
  let ?e = "[(''type'', PStr ''INHERITS''), (''from_id'', PStr cid),
             (''to_name'', PStr base), (''inferred'', PBool True)]"
  have "edge_ok (nodes st) ?e" by (simp add: edge_ok_def has_key_def)
  from wf_add_edge[OF assms this, of "inherits_edge cid base st"] None show ?thesis
    by (simp add: inherits_edge_def)
next
  case (Some target)
  let ?e = "[(''type'', PStr ''INHERITS''), (''from_id'', PStr cid),
             (''to_id'', PStr target), (''base_name'', PStr base)]"
  from assms Some have "id_in (nodes st) target" by (simp add: well_formed_def names_ok_def)
  then have "edge_ok (nodes st) ?e" by (simp add: edge_ok_def)
  from wf_add_edge[OF assms this, of "inherits_edge cid base st"] Some show ?thesis
    by (simp add: inherits_edge_def)
qed

lemma record_class_grows: "grows st (record_class L node st)"
proof (cases node)
  case (ClassDef name bases kws body decorator_list l e)
  let ?cid = "class_id_of L st name l"
  have g: "grows s (fold (inherits_edge ?cid) bs s)" for s bs
    by (rule fold_grows) (rule inherits_edge_grows)
  have "\<exists>s. grows st s \<and> record_class L node st
      = (fold (inherits_edge ?cid) (base_names L bases) s)
          \<lparr>stats := bump ''classes'' (stats (fold (inherits_edge ?cid) (base_names L bases) s))\<rparr>"
    by (rule exI, rule conjI[rotated], simp add: record_class_def ClassDef Let_def)
       (simp add: grows_def)
  then obtain s where gs: "grows st s" and eq: "record_class L node st
      = (fold (inherits_edge ?cid) (base_names L bases) s)
          \<lparr>stats := bump ''classes'' (stats (fold (inherits_edge ?cid) (base_names L bases) s))\<rparr>"
    by blast
  have "grows (fold (inherits_edge ?cid) (base_names L bases) s) (record_class L node st)"
    unfolding eq by (simp add: grows_def)
  from grows_trans[OF grows_trans[OF gs g] this] show ?thesis .
qed (simp_all add: record_class_def)

lemma record_class_wf:
  assumes "well_formed st"
  shows "well_formed (record_class L node st)"
proof (cases node)
  case (ClassDef name bases kws body decorator_list l e)
  let ?cid = "class_id_of L st name l"
  let ?n = "[(''id'', PStr ?cid), (''type'', PStr ''Class''), (''name'', PStr name),
             (''lineno'', PInt (int l)), (''end_lineno'', opt_nat e),
             (''docstring'', opt_str (get_docstring L node)),
             (''snippet'', PStr (take 500 (get_source_snippet L (src st) l e))),
             (''bases'', PList (map PStr (base_names L bases))),
             (''decorators'', PList (map PStr (concat (map (class_decorator L) decorator_list)))),
             (''num_methods'', PInt (int (length (filter is_function_def body)))),
             (''num_class_vars'', PInt (int (length (filter is_assign body)))),
             (''is_private'', PBool (startswith name ''_'')),
             (''is_abstract'', PBool (''ABC'' \<in> set (base_names L bases)
                                       \<or> ''abc.ABC'' \<in> set (base_names L bases)))]"
  let ?e = "[(''type'', PStr ''DEFINES''), (''from_id'', PStr (get_current_scope st)),
             (''to_id'', PStr ?cid), (''relationship'', PStr ''contains_class'')]"
  let ?s2 = "st\<lparr>defined_names := (defined_names st)(name \<mapsto> ?cid),
                nodes := nodes st @ [?n], edges := edges st @ [?e]\<rparr>"
  have w2: "well_formed ?s2"
    by (rule wf_add_node[OF assms, where i = ?cid and n = ?n and es = "[?e]"])
       (auto simp: edge_ok_def id_in_def split: if_splits)
  have w3: "well_formed (fold (inherits_edge ?cid) (base_names L bases) ?s2)"
    by (rule fold_inv[where P = well_formed, OF inherits_edge_wf w2])
  have eq: "record_class L node st
      = (fold (inherits_edge ?cid) (base_names L bases) ?s2)
          \<lparr>stats := bump ''classes'' (stats (fold (inherits_edge ?cid) (base_names L bases) ?s2))\<rparr>"
    by (simp add: record_class_def ClassDef Let_def)
  show ?thesis unfolding eq by (rule wf_frame[OF _ _ _ w3]) simp_all
qed (use assms in \<open>simp_all add: record_class_def\<close>)

subsection \<open>Functions\<close>

lemma extract_decorator_grows: "grows (fst acc) (fst (extract_decorator L dec acc))"
  by (cases acc)
     (simp add: extract_decorator_def Let_def grows_def split: option.splits)

lemma extract_decorator_wf:
  assumes "well_formed (fst acc)"
  shows "well_formed (fst (extract_decorator L dec acc))"
proof (cases acc)
  case (Pair st decorators)
  with assms have w: "well_formed st" by simp
  let ?info = "decorator_info L dec"
  show ?thesis
  proof (cases "raised st \<noteq> None \<or> \<not> nonempty (d_name ?info)")
    case True
    then have "fst (extract_decorator L dec acc) = st"
      by (rule disjE) (simp_all add: extract_decorator_def Pair Let_def)
    with w show ?thesis by simp
  next
    case False
    then have r: "raised st = None" and ne: "nonempty (d_name ?info)" by simp_all
    show ?thesis
    proof (cases "lineno dec")
      case None
      with r ne have "fst (extract_decorator L dec acc) = st\<lparr>raised := Some AttributeError\<rparr>"
        by (simp add: extract_decorator_def Pair Let_def)
      then show ?thesis using wf_frame[OF _ _ _ w, of "st\<lparr>raised := Some AttributeError\<rparr>"] by simp
    next
      case (Some l)
      let ?st' = "fst (extract_decorator L dec acc)"
      show ?thesis
      proof (rule wf_add_node[OF w, where n = "last (nodes ?st')" and es = "[]"
            and i = "stable_id L [file_id st, ''decorator'', the (d_name ?info), str_nat l]"])
        show "nodes ?st' = nodes st @ [last (nodes ?st')]"
          using r ne Some by (simp add: extract_decorator_def Pair Let_def)
        show "edges ?st' = edges st @ []"
          using r ne Some by (simp add: extract_decorator_def Pair Let_def)
        show "map_of (last (nodes ?st')) ''id''
            = Some (PStr (stable_id L [file_id st, ''decorator'', the (d_name ?info), str_nat l]))"
          using r ne Some by (simp add: extract_decorator_def Pair Let_def)
        show "defined_names ?st' k = Some v \<Longrightarrow> defined_names st k = Some v
            \<or> v = stable_id L [file_id st, ''decorator'', the (d_name ?info), str_nat l]" for k v
          using r ne Some by (simp add: extract_decorator_def Pair Let_def)
      qed simp
    qed
  qed
qed

lemma extract_decorators_wf:
  "well_formed st \<Longrightarrow> well_formed (fst (extract_decorators L decorator_list st))"
  unfolding extract_decorators_def
  by (rule fold_inv[where P = "\<lambda>acc. well_formed (fst acc)"]) (simp_all add: extract_decorator_wf)

lemma extract_decorators_grows: "grows st (fst (extract_decorators L decorator_list st))"
proof -
  have "grows (fst acc) (fst (fold (extract_decorator L) ds acc))" for ds acc
  proof (induction ds arbitrary: acc)
    case Nil
    show ?case by simp
  next
    case (Cons d ds)
    from grows_trans[OF extract_decorator_grows[of acc L d] Cons[of "extract_decorator L d acc"]]
    show ?case by simp
  qed
  from this[of "(st, [])" decorator_list] show ?thesis by (simp add: extract_decorators_def)
qed

lemma parameter_records_grows: "grows st (parameter_records L fn_id p st)"
  by (simp add: grows_def parameter_records_def Let_def)

lemma parameter_records_wf:
  assumes "well_formed st"
  shows "well_formed (parameter_records L fn_id p st)"
  by (rule wf_add_node[OF assms, where i = "stable_id L [fn_id, ''param'', p_name p]"
        and n = "last (nodes (parameter_records L fn_id p st))"
        and es = "[last (edges (parameter_records L fn_id p st))]"])
     (simp_all add: parameter_records_def Let_def edge_ok_def id_in_def)

lemma parameter_records_keeps: "id_in (nodes st) i \<Longrightarrow> id_in (nodes (parameter_records L fn_id p st)) i"
  by (simp add: parameter_records_def Let_def id_in_append)

lemma decorates_edge_grows: "grows st (decorates_edge L fn_id l dec st)"
  by (simp add: grows_def decorates_edge_def)

lemma decorates_edge_wf:
  assumes "well_formed st" and "id_in (nodes st) fn_id"
  shows "well_formed (decorates_edge L fn_id l dec st) \<and> id_in (nodes (decorates_edge L fn_id l dec st)) fn_id"
proof (cases "nonempty (d_name dec)")
  case False
  with assms show ?thesis by (simp add: decorates_edge_def)
next
  case True
  let ?e = "[(''type'', PStr ''DECORATES''),
             (''from_id'', PStr (stable_id L [file_id st, ''decorator'', the (d_name dec), str_nat l])),
             (''to_id'', PStr fn_id), (''lineno'', PInt (int l))]"
  from assms(2) have "edge_ok (nodes st) ?e" by (simp add: edge_ok_def)
  from wf_add_edge[OF assms(1) this, of "decorates_edge L fn_id l dec st"] True assms(2)
  show ?thesis by (simp add: decorates_edge_def)
qed

lemma function_node_id:
  "map_of (function_node L st (FunctionDef is_async name a body decorator_list returns l e) ds ps) ''id''
     = Some (PStr (function_id L st name l))"
  by (simp add: function_node_def Let_def)

lemma record_function_wf_grows:
  assumes "well_formed st"
  shows "well_formed (record_function L node st) \<and> grows st (record_function L node st)"
proof (cases node)
  case (FunctionDef is_async name a body decorator_list returns l e)
  let ?fn_id = "function_id L st name l"
  obtain st1 decorators where ed: "extract_decorators L decorator_list st = (st1, decorators)"
    by (cases "extract_decorators L decorator_list st")
  from extract_decorators_wf[OF assms, of L decorator_list] ed have w1: "well_formed st1" by simp
  from extract_decorators_grows[of st L decorator_list] ed have g1: "grows st st1" by simp
  show ?thesis
  proof (cases "raised st1 \<noteq> None")
    case True
    with ed have "record_function L node st = st1"
      by (simp add: record_function_def FunctionDef Let_def)
    with w1 g1 show ?thesis by simp
  next
    case False
    let ?params = "extract_parameters L a"
    let ?n = "function_node L st node decorators ?params"
    let ?e = "[(''type'', PStr ''DEFINES''), (''from_id'', PStr (get_current_scope st)),
               (''to_id'', PStr ?fn_id),
               (''relationship'', PStr (if current_class st \<noteq> None then ''contains_method''
                                        else ''contains_function''))]"
    let ?st3 = "st1\<lparr>defined_names := (defined_names st1)(name \<mapsto> ?fn_id),
                   nodes := nodes st1 @ [?n], edges := edges st1 @ [?e]\<rparr>"
    let ?st4 = "fold (parameter_records L ?fn_id) ?params ?st3"
    let ?st5 = "fold (decorates_edge L ?fn_id l) decorators ?st4"
    have nid: "map_of ?n ''id'' = Some (PStr ?fn_id)"
      unfolding FunctionDef by (rule function_node_id)
    have w3: "well_formed ?st3"
      by (rule wf_add_node[OF w1, where i = ?fn_id and n = ?n and es = "[?e]"])
         (auto simp: nid edge_ok_def id_in_def split: if_splits)
    have i3: "id_in (nodes ?st3) ?fn_id"
      using id_in_last[OF nid, of "nodes st1"] by simp
    have g3: "grows st1 ?st3" by (simp add: grows_def)
    have w4: "well_formed ?st4 \<and> id_in (nodes ?st4) ?fn_id"
    proof (rule fold_inv[where P = "\<lambda>s. well_formed s \<and> id_in (nodes s) ?fn_id"])
      show "well_formed ?st3 \<and> id_in (nodes ?st3) ?fn_id" by (rule conjI[OF w3 i3])
    qed (simp add: parameter_records_wf parameter_records_keeps)
    have g4: "grows ?st3 ?st4" by (rule fold_grows) (rule parameter_records_grows)
    have w5: "well_formed ?st5 \<and> id_in (nodes ?st5) ?fn_id"
    proof (rule fold_inv[where P = "\<lambda>s. well_formed s \<and> id_in (nodes s) ?fn_id"])
      show "well_formed ?st4 \<and> id_in (nodes ?st4) ?fn_id" by (rule w4)
    qed (simp add: decorates_edge_wf)
    have g5: "grows ?st4 ?st5" by (rule fold_grows) (rule decorates_edge_grows)
    have eq: "record_function L node st
        = ?st5\<lparr>stats := bump (if current_class st \<noteq> None then ''methods'' else ''functions'')
                           (stats ?st5)\<rparr>"
      using ed False by (simp add: record_function_def FunctionDef Let_def)
    have "well_formed (record_function L node st)"
      unfolding eq by (rule wf_frame[OF _ _ _ conjunct1[OF w5]]) simp_all
    moreover have "grows ?st5 (record_function L node st)"
      unfolding eq by (simp add: grows_def)
    ultimately show ?thesis
      using grows_trans[OF g1 grows_trans[OF g3 grows_trans[OF g4 grows_trans[OF g5]]]] by blast
  qed
qed (use assms in \<open>simp_all add: record_function_def\<close>)

subsection \<open>The traversal keeps the invariant and only appends\<close>

lemma enter_wf_grows:
  assumes "well_formed st"
  shows "well_formed (enter L node st) \<and> grows st (enter L node st)"
proof (cases node)
  case (FunctionDef is_async name a body decorator_list returns l e)
  note rf = record_function_wf_grows[OF assms, of L node]
  show ?thesis
  proof (cases "raised (record_function L node st) \<noteq> None")
    case True
    then have "enter L node st = record_function L node st"
      by (simp add: enter_def FunctionDef Let_def)
    with rf show ?thesis by simp
  next
    case False
    then have eq: "enter L node st = (record_function L node st)
        \<lparr>current_function := Some (function_id L st name l),
         current_scope_stack := current_scope_stack (record_function L node st)
            @ [function_id L st name l]\<rparr>"
      by (simp add: enter_def FunctionDef Let_def)
    have "well_formed (enter L node st)"
      unfolding eq by (rule wf_frame[OF _ _ _ conjunct1[OF rf]]) simp_all
    moreover have "grows (record_function L node st) (enter L node st)"
      unfolding eq by (simp add: grows_def)
    ultimately show ?thesis using grows_trans[OF conjunct2[OF rf]] by blast
  qed
next
  case (ClassDef name bases kws body decorator_list l e)
  have eq: "enter L node st = (record_class L node st)
        \<lparr>current_class := Some name,
         current_scope_stack := current_scope_stack (record_class L node st)
            @ [class_id_of L st name l]\<rparr>"
    by (simp add: enter_def ClassDef Let_def)
  have "well_formed (enter L node st)"
    unfolding eq by (rule wf_frame[OF _ _ _ record_class_wf[OF assms, of L node]]) simp_all
  moreover have "grows (record_class L node st) (enter L node st)"
    unfolding eq by (simp add: grows_def)
  ultimately show ?thesis using grows_trans[OF record_class_grows[of st L node]] by blast
next
  case (Import names l)
  then show ?thesis using record_import_wf[OF assms] record_import_grows by (simp add: enter_def)
next
  case (ImportFrom m names level l)
  then show ?thesis using record_import_from_wf[OF assms] record_import_from_grows
    by (simp add: enter_def)
next
  case (Assign targets v l)
  then show ?thesis using record_assign_wf[OF assms] record_assign_grows by (simp add: enter_def)
next
  case (Call func as kws l)
  then show ?thesis using record_call_wf[OF assms] record_call_grows by (simp add: enter_def)
next
  case (Raise exc cause l)
  then show ?thesis using function_edge_wf[OF assms] function_edge_grows by (simp add: enter_def)
next
  case (Return v l)
  then show ?thesis using function_edge_wf[OF assms] function_edge_grows by (simp add: enter_def)
qed (use assms in \<open>simp_all add: enter_def\<close>)

lemma leave_frame:
  "nodes (leave node st0 st) = nodes st \<and> edges (leave node st0 st) = edges st \<and>
   defined_names (leave node st0 st) = defined_names st"
  by (cases node) (simp_all add: leave_def)

lemma visit_wf_grows:
  "well_formed st \<Longrightarrow> well_formed (visit L d node st) \<and> grows st (visit L d node st)"
proof (induction d arbitrary: node st)
  case 0
  show ?case
  proof (cases "raised st \<noteq> None")
    case True
    with 0 show ?thesis by simp
  next
    case False
    then have "visit L 0 node st = st\<lparr>raised := Some RecursionError\<rparr>"
      by (simp add: visit.simps)
    with wf_frame[OF _ _ _ 0, of "st\<lparr>raised := Some RecursionError\<rparr>"] show ?thesis
      by (simp add: grows_def)
  qed
next
  case (Suc d)
  show ?case
  proof (cases "raised st \<noteq> None")
    case True
    with Suc.prems show ?thesis by simp
  next
    case False
    then have r: "raised st = None" by simp
    let ?st1 = "enter L node st"
    let ?st2 = "fold (visit L d) (iter_child_nodes node) ?st1"
    note e = enter_wf_grows[OF Suc.prems, of L node]
    have w2: "well_formed ?st2"
      by (rule fold_inv[where P = well_formed]) (simp_all add: Suc.IH e)
    have "well_formed s \<Longrightarrow> grows s (fold (visit L d) cs s)" for cs s
    proof (induction cs arbitrary: s)
      case Nil
      show ?case by simp
    next
      case (Cons c cs)
      from Suc.IH[OF Cons.prems, of c] have "well_formed (visit L d c s)" "grows s (visit L d c s)"
        by simp_all
      with Cons.IH[of "visit L d c s"] show ?case by (auto intro: grows_trans)
    qed
    from this[OF conjunct1[OF e]] have g2: "grows ?st1 ?st2" .
    from leave_frame[of node st ?st2] have w3: "well_formed (leave node st ?st2)"
      and g3: "grows ?st2 (leave node st ?st2)"
      using wf_frame[OF _ _ _ w2, of "leave node st ?st2"] by (simp_all add: grows_def)
    from e w2 g2 w3 g3 show ?thesis
      unfolding visit_Suc[OF r] by (auto intro: grows_trans)
  qed
qed

lemma record_file_node_wf:
  "record_file_node L (new_extractor L root fp text) = Inr st0 \<Longrightarrow>
   well_formed st0 \<and> length (nodes st0) = 1"
  by (auto simp: record_file_node_def new_extractor_def Let_def well_formed_def names_ok_def
      split: sum.splits)

section \<open>Properties of one extraction pass\<close>

definition is_semantic :: "pydict \<Rightarrow> bool" where
  "is_semantic e =
     (map_of e ''type'' \<in> set [Some (PStr ''CALLS''), Some (PStr ''RAISES''),
                               Some (PStr ''RETURNS''), Some (PStr ''INHERITS'')])"

definition assign_and_call :: ast where
  "assign_and_call =
     Module [Assign [Name ''x'' 1] (Constant (CInt 1) 1) 1,
             Other ''Expr'' [Call (Name ''x'' 2) [] [] 2] 2]"

lemma visit_assign:
  "raised st = None \<Longrightarrow>
   visit L (Suc d) (Assign targets v l) st
     = fold (visit L d) (targets @ [v]) (record_assign L targets v l st)"
  by (simp add: visit_Suc enter_def leave_def Let_def)

lemma visit_constant: "raised st = None \<Longrightarrow> visit L (Suc d) (Constant c l) st = st"
  by (simp add: visit_Suc enter_def leave_def)

lemma assign_and_call_records:
  "\<exists>ns es ss.
     extract_file hex_identity (one_file assign_and_call (Suc (Suc (Suc (Suc 0)))))
       [''repo''] [''repo'', ''m.py''] = Inr (ns, es, ss) \<and>
     map (\<lambda>n. map_of n ''id'') ns
       = [Some (PStr ''hrepo/m.py''), Some (PStr ''hhrepo/m.py::var::x::1'')] \<and>
     map (\<lambda>e. (map_of e ''type'', map_of e ''to_id'')) es
       = [(Some (PStr ''DEFINES''), Some (PStr ''hhrepo/m.py::var::x::1'')),
          (Some (PStr ''CALLS''), Some (PStr ''hhrepo/m.py::var::x::1''))]"
proof -
  let ?L = hex_identity
  let ?fp = "[''repo'', ''m.py'']"
  let ?R = "one_file assign_and_call (Suc (Suc (Suc (Suc 0))))"
  have sp: "str_path ?fp = ''repo/m.py''" by (simp add: str_path_def)
  have fid: "stable_id ?L [''repo/m.py''] = ''hrepo/m.py''"
    by (simp add: stable_id_def hex_identity_def)
  from record_file_node_fields[OF relative_m_py, of ?L "[]"] obtain st0 file_node where
    st0: "record_file_node ?L (new_extractor ?L [''repo''] ?fp []) = Inr st0"
    and f: "raised st0 = None" "file_id st0 = ''hrepo/m.py''"
      "current_scope_stack st0 = [''hrepo/m.py'']"
      "imports_map st0 = Map.empty" "defined_names st0 = Map.empty"
      "edges st0 = []" "nodes st0 = [file_node]"
      "map_of file_node ''id'' = Some (PStr ''hrepo/m.py'')"
    unfolding sp fid by blast
  let ?st1 = "record_assign ?L [Name ''x'' 1] (Constant (CInt 1) 1) 1 st0"
  let ?st2 = "record_call (Name ''x'' 2) [] [] 2 ?st1"
  have v: "visit ?L (Suc (Suc (Suc (Suc 0)))) assign_and_call st0 = ?st2"
    using f(1) by (simp add: assign_and_call_def visit_module visit_other visit_call
        visit_assign visit_constant visit_name)
  have ex: "extract_file ?L ?R [''repo''] ?fp = Inr (nodes ?st2, edges ?st2, stats ?st2)"
    using extract_file_visit[of ?R ?fp "[]" assign_and_call ?L "[''repo'']" st0] st0 v
    by (simp add: one_file_def)
  have n: "map (\<lambda>n. map_of n ''id'') (nodes ?st2)
       = [Some (PStr ''hrepo/m.py''), Some (PStr ''hhrepo/m.py::var::x::1'')]"
    using f by (simp add: record_call_def record_assign_def assign_target_def Let_def
        get_current_scope_def stable_id_def hex_identity_def str_nat_digit)
  have e: "map (\<lambda>e. (map_of e ''type'', map_of e ''to_id'')) (edges ?st2)
       = [(Some (PStr ''DEFINES''), Some (PStr ''hhrepo/m.py::var::x::1'')),
          (Some (PStr ''CALLS''), Some (PStr ''hhrepo/m.py::var::x::1''))]"
    using f by (simp add: record_call_def record_assign_def assign_target_def Let_def
        get_current_scope_def stable_id_def hex_identity_def str_nat_digit callee_of_def
        nonempty_def first_part_of_def)
  from ex n e show ?thesis by (intro exI conjI)
qed

text \<open>
  Claim C8. Every Calls, Raises, Returns or Inherits edge of one extraction pass either
  carries a \<^verbatim>\<open>to_id\<close> that is the id of a node of the same pass, or carries a \<^verbatim>\<open>to_name\<close> and
  no \<^verbatim>\<open>to_id\<close>; none lacks both. This holds for every digest, every unparser, every
  recursion limit and every tree, also when the traversal ends with an exception.
\<close>

theorem semantic_edges_resolved_or_named:
  assumes "extract_file L R root fp = Inr (ns, es, ss)"
  shows "list_all (\<lambda>e. is_semantic e \<longrightarrow> edge_ok ns e) es"
proof (cases "read_text R fp")
  case (Inl e)
  with assms show ?thesis by (simp add: extract_file_def)
next
  case rd: (Inr s0)
  show ?thesis
  proof (cases "ast_parse R s0")
    case (Inl e)
    with assms rd show ?thesis by (simp add: extract_file_def)
  next
    case tree: (Inr tree)
    show ?thesis
    proof (cases "record_file_node L (new_extractor L root fp s0)")
      case (Inl e)
      with assms rd tree show ?thesis by (simp add: extract_file_def)
    next
      case (Inr st0)
      let ?st = "visit L (recursion_limit R) tree st0"
      from assms rd tree Inr have "ns = nodes ?st" "es = edges ?st"
        by (simp_all add: extract_file_def Let_def)
      moreover from visit_wf_grows[OF conjunct1[OF record_file_node_wf[OF Inr]]]
      have "well_formed ?st" by simp
      ultimately show ?thesis by (simp add: well_formed_def list_all_iff)
    qed
  qed
qed

theorem semantic_edges_resolved_or_named_witness:
  "\<exists>ns es ss.
     extract_file hex_identity (one_file assign_and_call (Suc (Suc (Suc (Suc 0)))))
       [''repo''] [''repo'', ''m.py''] = Inr (ns, es, ss) \<and>
     list_all (\<lambda>e. is_semantic e \<longrightarrow> edge_ok ns e) es \<and>
     map (\<lambda>e. (map_of e ''type'', map_of e ''to_id'')) es
       = [(Some (PStr ''DEFINES''), Some (PStr ''hhrepo/m.py::var::x::1'')),
          (Some (PStr ''CALLS''), Some (PStr ''hhrepo/m.py::var::x::1''))]"
proof -
  from assign_and_call_records obtain ns es ss where
    ex: "extract_file hex_identity (one_file assign_and_call (Suc (Suc (Suc (Suc 0)))))
       [''repo''] [''repo'', ''m.py''] = Inr (ns, es, ss)"
    and e: "map (\<lambda>e. (map_of e ''type'', map_of e ''to_id'')) es
       = [(Some (PStr ''DEFINES''), Some (PStr ''hhrepo/m.py::var::x::1'')),
          (Some (PStr ''CALLS''), Some (PStr ''hhrepo/m.py::var::x::1''))]"
    by (elim exE conjE) (rule that; assumption)
  from semantic_edges_resolved_or_named[OF ex] ex e show ?thesis by (intro exI conjI)
qed



text \<open>Every file the orchestrator hands to \<^verbatim>\<open>extract_file\<close> lies under the repository root.\<close>

lemma os_walk_under:
  "(dp, ds, fs) \<in> set (os_walk keep p t) \<Longrightarrow> take (length p) dp = p"
proof (induction keep p t arbitrary: dp ds fs rule: os_walk.induct)
  case (1 keep p name subs fs')
  from "1.prems" consider "dp = p"
    | d where "d \<in> set subs" "keep (dir_name d)" "(dp, ds, fs) \<in> set (os_walk keep (p @ [dir_name d]) d)"
    by auto
  then show ?case
  proof cases
    case 1
    then show ?thesis by simp
  next
    case 2
    from "1.IH"[of d dp ds fs] 2 have "take (length (p @ [dir_name d])) dp = p @ [dir_name d]"
      by simp
    then have "take (length p) (take (Suc (length p)) dp) = take (length p) (p @ [dir_name d])"
      by simp
    then show ?thesis by (simp add: min_def)
  qed
qed

lemma discovered_files_under_root:
  assumes "fp \<in> set (find_python_files root exclude tree)"
  shows "\<exists>rel. relative_to fp root = Inr rel"
proof -
  from assms obtain keep dp ds fs filename where
    "(dp, ds, fs) \<in> set (os_walk keep root tree)" and "fp = dp @ [filename]"
    by (auto simp: find_python_files_def Let_def)
  with os_walk_under[of dp ds fs keep root tree] have "take (length root) fp = root"
    by (metis append_eq_conv_conj append_take_drop_id take_append take_all_iff linear
        take_take min.absorb1 length_take min.cobounded2)
  then show ?thesis by (simp add: relative_to_def)
qed

end
